theory Spec2Isabelle
  imports Main "HOL-Library.Word"
begin

section \<open>The server (bas/server.hpp)\<close>

subsection \<open>Values exchanged with the platform\<close>

text \<open>The value of a \<^verbatim>\<open>boost::system::error_code\<close>; \<open>0\<close> is success, so \<^verbatim>\<open>!e\<close> is \<open>e = 0\<close>.\<close>

type_synonym error_code = int

type_synonym handler_id = nat

type_synonym io_service_id = nat

datatype protocol = tcp_v4 | tcp_v6

text \<open>\<^verbatim>\<open>boost::asio::ip::tcp::endpoint\<close>: a parsed address (its family decides the protocol) and an
  \<^verbatim>\<open>unsigned short\<close> port.\<close>

record endpoint =
  ep_protocol :: protocol
  ep_address :: string
  ep_port :: "16 word"

text \<open>Modelled from the spec: the tasks of an event loop belong to the platform library and
  to \<^verbatim>\<open>bas/io_service_pool.hpp\<close>, which is not among the sources. Section 4.5 has each
  callback post its successor into the other pool (an i/o completion posts a work callback,
  a work callback starts an i/o operation); the list holds those successors.\<close>

datatype task = Task "task list"

fun successors :: "task \<Rightarrow> task list" where
  "successors (Task ts) = ts"


subsection \<open>io\_service\_pool\<close>

text \<open>Modelled from the spec: \<^verbatim>\<open>bas/io_service_pool.hpp\<close> is not among the sources. Sections 3,
  4.1 and 4.2 give a pool an ordered sequence of loops with a round-robin cursor, a
  high-watermark and a per-thread load for the load-aware selection, cooperative and forced
  stop, and an idle test. The loops are numbered \<open>0 ..< pool_size\<close>; \<open>queue\<close> holds the
  handlers posted to the pool's loops that have not run yet.\<close>

record io_service_pool =
  pool_size :: nat
  next_io_service :: nat
  high_watermark :: nat
  thread_load :: nat
  running :: bool
  queue :: "task list"

text \<open>Modelled from the spec: construction of a pool of \<open>n\<close> loops (section 3,
  \<^verbatim>\<open>construct(N)\<close>), not started, nothing queued.\<close>

definition io_service_pool_new :: "nat \<Rightarrow> nat \<Rightarrow> nat \<Rightarrow> io_service_pool" where
  "io_service_pool_new n hwm load =
     \<lparr>pool_size = n, next_io_service = 0, high_watermark = hwm, thread_load = load,
      running = False, queue = []\<rparr>"

text \<open>Modelled from the spec: section 4.1, \<^verbatim>\<open>get_loop()\<close> returns the next loop in
  round-robin order and the cursor increments with wrap. Section 6 requires every pool size
  to be at least 1 and the thread load to be positive; the model says nothing useful about
  a pool without loops or a load of 0.\<close>

definition get_io_service :: "io_service_pool \<Rightarrow> io_service_id \<times> io_service_pool" where
  "get_io_service p =
     (next_io_service p mod pool_size p,
      p\<lparr>next_io_service := (next_io_service p + 1) mod pool_size p\<rparr>)"

text \<open>Modelled from the spec: section 4.2, \<^verbatim>\<open>required = clamp(ceil(h / L), 1, wmax)\<close>; when
  \<open>required\<close> exceeds the current size the pool grows to it; the loop returned is the one at
  \<^verbatim>\<open>cursor % current_size\<close>.\<close>

definition required_size :: "io_service_pool \<Rightarrow> nat \<Rightarrow> nat" where
  "required_size p h =
     min (high_watermark p) (max 1 ((h + thread_load p - 1) div thread_load p))"

definition get_io_service_load :: "io_service_pool \<Rightarrow> nat \<Rightarrow> io_service_id \<times> io_service_pool" where
  "get_io_service_load p h =
     get_io_service (if pool_size p < required_size p h
                     then p\<lparr>pool_size := required_size p h\<rparr> else p)"

text \<open>Modelled from the spec: section 4.1, \<^verbatim>\<open>is_idle()\<close> is true iff every loop's queue is
  empty and no task is executing.\<close>

definition is_free :: "io_service_pool \<Rightarrow> bool" where
  "is_free p = (queue p = [])"

text \<open>Modelled from the spec: section 4.1 and 4.2, \<^verbatim>\<open>start()\<close> launches the worker threads;
  starting an already-started pool is a no-op.\<close>

definition pool_start :: "io_service_pool \<Rightarrow> io_service_pool" where
  "pool_start p = (if running p then p else p\<lparr>running := True\<rparr>)"

text \<open>Modelled from the spec: posting a handler to one of the pool's loops.\<close>

definition pool_post :: "task list \<Rightarrow> io_service_pool \<Rightarrow> io_service_pool" where
  "pool_post ts p = p\<lparr>queue := queue p @ ts\<rparr>"

text \<open>Modelled from the spec: section 4.1. A cooperative \<^verbatim>\<open>stop()\<close> returns once the queue
  has drained: every queued handler runs, and the result is the stopped pool together with
  the successors those handlers queued on the other pool. \<^verbatim>\<open>stop(force=true)\<close> abandons the
  queued handlers. Stopping an already-stopped pool is a no-op.\<close>

definition pool_stop :: "bool \<Rightarrow> io_service_pool \<Rightarrow> io_service_pool \<times> task list" where
  "pool_stop force p =
     (if \<not> running p then (p, [])
      else if force then (p\<lparr>running := False, queue := []\<rparr>, [])
      else (p\<lparr>running := False, queue := []\<rparr>, concat (map successors (queue p))))"

subsection \<open>service\_handler\_pool and service\_handler\<close>

text \<open>Modelled from the spec: \<^verbatim>\<open>bas/service_handler_pool.hpp\<close> and
  \<^verbatim>\<open>bas/service_handler.hpp\<close> are not among the sources. A checked-out handler is bound to
  an i/o loop and a work loop (section 3); \<open>session_open\<close> says that \<^verbatim>\<open>start()\<close> has taken it
  from \<^verbatim>\<open>idle\<close> to \<^verbatim>\<open>open\<close>.\<close>

record session =
  session_io :: io_service_id
  session_work :: io_service_id
  session_open :: bool

text \<open>Modelled from the spec: section 4.4. The pool keeps a free list of recycled handlers
  and an in-use counter; handlers are numbered in the order they are constructed, \<open>created\<close>
  counts them; \<open>sessions\<close> holds the checked-out handlers. \<open>closing\<close> holds the handlers
  whose stopped flag has flipped (section 3): their \<^verbatim>\<open>on_close\<close> is posted to the work loop
  and has not returned yet. \<open>work_on_open\<close> and \<open>work_on_close\<close> stand for the
  \<^verbatim>\<open>Work_Handler\<close> template parameter: the handlers its \<^verbatim>\<open>on_open\<close> and \<^verbatim>\<open>on_close\<close>
  callbacks are on the work loop.\<close>

record service_handler_pool =
  preallocated :: nat
  free_list :: "handler_id list"
  in_use :: nat
  created :: nat
  sessions :: "handler_id \<rightharpoonup> session"
  closing :: "handler_id list"
  work_on_open :: task
  work_on_close :: task

text \<open>Modelled from the spec: \<^verbatim>\<open>init()\<close> preallocates \<open>P\<close> handlers.\<close>

definition pool_init :: "service_handler_pool \<Rightarrow> service_handler_pool" where
  "pool_init hp =
     hp\<lparr>free_list := free_list hp @ [created hp ..< created hp + preallocated hp],
        created := created hp + preallocated hp\<rparr>"

text \<open>Modelled from the spec: \<^verbatim>\<open>get_load()\<close> is the current in-use count.\<close>

definition get_load :: "service_handler_pool \<Rightarrow> nat" where
  "get_load hp = in_use hp"

text \<open>Modelled from the spec: \<^verbatim>\<open>get(io_loop, work_loop)\<close> returns a recycled or freshly
  allocated handler bound to the given loops and increments the in-use counter.\<close>

definition get_service_handler ::
  "service_handler_pool \<Rightarrow> io_service_id \<Rightarrow> io_service_id \<Rightarrow> handler_id \<times> service_handler_pool" where
  "get_service_handler hp io wk =
     (case free_list hp of
        [] \<Rightarrow> (created hp,
               hp\<lparr>created := created hp + 1, in_use := in_use hp + 1,
                  sessions := (sessions hp)(created hp \<mapsto>
                    \<lparr>session_io = io, session_work = wk, session_open = False\<rparr>)\<rparr>)
      | h # fs \<Rightarrow> (h,
               hp\<lparr>free_list := fs, in_use := in_use hp + 1,
                  sessions := (sessions hp)(h \<mapsto>
                    \<lparr>session_io = io, session_work = wk, session_open = False\<rparr>)\<rparr>))"

text \<open>Modelled from the spec: \<^verbatim>\<open>put(handler)\<close> decrements the counter, clears the
  per-session state and pushes the handler back onto the free list.\<close>

definition put_service_handler :: "handler_id \<Rightarrow> service_handler_pool \<Rightarrow> service_handler_pool" where
  "put_service_handler h hp =
     hp\<lparr>in_use := in_use hp - 1, sessions := (sessions hp)(h := None),
        closing := removeAll h (closing hp), free_list := free_list hp @ [h]\<rparr>"

text \<open>Modelled from the spec: section 4.3, shutdown step 4: when \<^verbatim>\<open>on_close\<close> has returned the
  handler recycles to its pool. The posted \<^verbatim>\<open>on_close\<close> callbacks run when the work pool,
  given as it is before the stop, is stopped cooperatively and runs its queue (\<open>pool_stop\<close>);
  a forced stop abandons them and a pool that is not running runs nothing, so that the
  handlers stay as they are, closing.\<close>

definition finish_closing :: "bool \<Rightarrow> io_service_pool \<Rightarrow> service_handler_pool \<Rightarrow> service_handler_pool" where
  "finish_closing force wp hp =
     (if running wp \<and> \<not> force then fold put_service_handler (closing hp) hp else hp)"

subsection \<open>Acceptors\<close>

text \<open>A \<^verbatim>\<open>boost::asio::ip::tcp::acceptor\<close>: the loop it was constructed on, what \<^verbatim>\<open>open\<close>,
  \<^verbatim>\<open>set_option\<close>, \<^verbatim>\<open>bind\<close> and \<^verbatim>\<open>listen\<close> have set, the handlers whose sockets wait on an
  outstanding \<^verbatim>\<open>async_accept\<close> (oldest first), and whether a \<^verbatim>\<open>close\<close> has been dispatched to
  its loop.\<close>

record acceptor =
  acc_io_service :: io_service_id
  acc_open :: "protocol option"
  acc_reuse_address :: bool
  acc_bound :: "endpoint option"
  acc_listening :: bool
  acc_pending :: "handler_id list"
  acc_close_dispatched :: bool

definition acceptor_new :: "io_service_id \<Rightarrow> acceptor" where
  "acceptor_new io =
     \<lparr>acc_io_service = io, acc_open = None, acc_reuse_address = False, acc_bound = None,
      acc_listening = False, acc_pending = [], acc_close_dispatched = False\<rparr>"

text \<open>The four calls of \<^verbatim>\<open>run\<close> on an acceptor that throw \<^verbatim>\<open>boost::system::system_error\<close>
  when the platform refuses them.\<close>

datatype acceptor_op = Op_open | Op_set_option | Op_bind | Op_listen

text \<open>The platform's answer to such a call on acceptor \<open>i\<close>: \<open>0\<close>, or the error thrown.\<close>

type_synonym platform = "nat \<Rightarrow> acceptor_op \<Rightarrow> error_code"

text \<open>\<^verbatim>\<open>boost::asio::error::operation_aborted\<close> (\<^verbatim>\<open>ECANCELED\<close>), the error with which an
  outstanding accept completes when its acceptor is closed.\<close>

definition operation_aborted :: error_code where
  "operation_aborted = 125"

subsection \<open>The server object\<close>

datatype pool_name = Acceptor_pool | Io_pool | Work_pool

text \<open>The calls the server makes on its collaborators, recorded oldest first in \<open>trace\<close>.\<close>

datatype call =
  Acceptor_open nat protocol
| Acceptor_set_reuse_address nat bool
| Acceptor_bind nat endpoint
| Acceptor_listen nat
| Acceptor_async_accept nat handler_id
| Acceptor_dispatch_close nat
| Handler_start handler_id
| Handler_close handler_id error_code
| Pool_start pool_name
| Pool_stop pool_name bool
| Pool_run pool_name

text \<open>The data members; a member \<^verbatim>\<open>x_\<close> of the class is the field \<open>x\<close>.\<close>

record server =
  service_handler_pool :: service_handler_pool
  acceptor_service_pool :: io_service_pool
  io_service_pool :: io_service_pool
  work_service_pool :: io_service_pool
  acceptors :: "acceptor list"
  endpoint :: endpoint
  started :: bool
  trace :: "call list"

subsection \<open>Calls on handlers and pools\<close>

text \<open>Modelled from the spec: section 4.3, \<^verbatim>\<open>start()\<close> is called by the server after an
  accept; it takes the handler from \<^verbatim>\<open>idle\<close> to \<^verbatim>\<open>open\<close> and invokes \<^verbatim>\<open>on_open\<close> on the work
  loop.\<close>

definition handler_start :: "handler_id \<Rightarrow> server \<Rightarrow> server" where
  "handler_start h s =
     (let hp = service_handler_pool s in
      s\<lparr>service_handler_pool :=
          hp\<lparr>sessions := (case sessions hp h of
                             None \<Rightarrow> sessions hp
                           | Some x \<Rightarrow> (sessions hp)(h \<mapsto> x\<lparr>session_open := True\<rparr>))\<rparr>,
        work_service_pool := pool_post [work_on_open hp] (work_service_pool s),
        trace := trace s @ [Handler_start h]\<rparr>)"

text \<open>Modelled from the spec: section 4.3, \<^verbatim>\<open>close(err)\<close> initiates shutdown and is idempotent:
  the stopped flag flips and \<^verbatim>\<open>on_close(err)\<close> is posted to the work loop. The handler stays
  checked out; it recycles only when that \<^verbatim>\<open>on_close\<close> has returned (\<open>finish_closing\<close>). A
  handler that is not checked out, or is closing already, is left alone.\<close>

definition handler_close :: "handler_id \<Rightarrow> error_code \<Rightarrow> server \<Rightarrow> server" where
  "handler_close h e s =
     (let hp = service_handler_pool s in
      if sessions hp h = None \<or> h \<in> set (closing hp)
      then s\<lparr>trace := trace s @ [Handler_close h e]\<rparr>
      else s\<lparr>service_handler_pool := hp\<lparr>closing := closing hp @ [h]\<rparr>,
             work_service_pool := pool_post [work_on_close hp] (work_service_pool s),
             trace := trace s @ [Handler_close h e]\<rparr>)"

definition work_pool_start :: "server \<Rightarrow> server" where
  "work_pool_start s =
     s\<lparr>work_service_pool := pool_start (work_service_pool s),
       trace := trace s @ [Pool_start Work_pool]\<rparr>"

definition io_pool_start :: "server \<Rightarrow> server" where
  "io_pool_start s =
     s\<lparr>io_service_pool := pool_start (io_service_pool s),
       trace := trace s @ [Pool_start Io_pool]\<rparr>"

text \<open>Stopping the i/o pool lets its queued handlers run; what they post lands on the work
  pool, and the other way round. The handlers queued on the work pool include the posted
  \<^verbatim>\<open>on_close\<close> callbacks, so its stop is also where the closing handlers recycle.\<close>

definition io_pool_stop :: "bool \<Rightarrow> server \<Rightarrow> server" where
  "io_pool_stop force s =
     (let (p, posted) = pool_stop force (io_service_pool s) in
      s\<lparr>io_service_pool := p,
        work_service_pool := pool_post posted (work_service_pool s),
        trace := trace s @ [Pool_stop Io_pool force]\<rparr>)"

definition work_pool_stop :: "bool \<Rightarrow> server \<Rightarrow> server" where
  "work_pool_stop force s =
     (let (p, posted) = pool_stop force (work_service_pool s) in
      s\<lparr>work_service_pool := p,
        io_service_pool := pool_post posted (io_service_pool s),
        service_handler_pool :=
          finish_closing force (work_service_pool s) (service_handler_pool s),
        trace := trace s @ [Pool_stop Work_pool force]\<rparr>)"

definition acceptor_pool_stop :: "server \<Rightarrow> server" where
  "acceptor_pool_stop s =
     s\<lparr>acceptor_service_pool := fst (pool_stop False (acceptor_service_pool s)),
       trace := trace s @ [Pool_stop Acceptor_pool False]\<rparr>"

subsection \<open>Construction\<close>

text \<open>The loop of the constructor, with the number of iterations left: each one constructs
  an acceptor on \<^verbatim>\<open>acceptor_service_pool.get_io_service()\<close> and pushes it back.\<close>

fun create_acceptors :: "nat \<Rightarrow> server \<Rightarrow> server" where
  "create_acceptors 0 s = s"
| "create_acceptors (Suc n) s =
     (let (io, ap) = get_io_service (acceptor_service_pool s) in
      create_acceptors n
        (s\<lparr>acceptor_service_pool := ap, acceptors := acceptors s @ [acceptor_new io]\<rparr>))"

text \<open>The constructor. The pool pointer \<open>pool_ptr\<close> is \<open>None\<close> when null, and \<^verbatim>\<open>BOOST_ASSERT\<close> then stops
  the program (\<open>None\<close>). \<open>ep\<close> is the endpoint \<^verbatim>\<open>address\<close> and \<^verbatim>\<open>port\<close> parse to. \<open>hwm0\<close> and
  \<open>load0\<close> are the values of \<^verbatim>\<open>BAS_IO_SERVICE_POOL_HIGH_WATERMARK\<close> and
  \<^verbatim>\<open>BAS_IO_SERVICE_POOL_THREAD_LOAD\<close>, which the two pools constructed from a size alone
  take; the macros are not among the sources.\<close>

definition server_new ::
  "nat \<Rightarrow> nat \<Rightarrow> service_handler_pool option \<Rightarrow> endpoint \<Rightarrow> nat \<Rightarrow> nat \<Rightarrow> nat \<Rightarrow> nat \<Rightarrow> server option" where
  "server_new hwm0 load0 pool_ptr ep io_pool_size work_pool_init_size
       work_pool_high_watermark work_pool_thread_load =
     (case pool_ptr of
        None \<Rightarrow> None
      | Some hp \<Rightarrow>
          (let s = create_acceptors io_pool_size
                     \<lparr>service_handler_pool = hp,
                      acceptor_service_pool = io_service_pool_new io_pool_size hwm0 load0,
                      io_service_pool = io_service_pool_new io_pool_size hwm0 load0,
                      work_service_pool =
                        io_service_pool_new work_pool_init_size work_pool_high_watermark
                          work_pool_thread_load,
                      acceptors = [],
                      endpoint = ep,
                      started = False,
                      trace = []\<rparr>
           in Some (s\<lparr>service_handler_pool := pool_init (service_handler_pool s)\<rparr>)))"

subsection \<open>Accepting\<close>

text \<open>\<^verbatim>\<open>accept_one\<close>, for the acceptor at index \<open>i\<close> of \<^verbatim>\<open>acceptors\<close> (every caller passes an
  element of that vector). The two loop selections touch different pools, so the order in
  which C++ evaluates the two arguments does not show.\<close>

definition accept_one :: "nat \<Rightarrow> server \<Rightarrow> server" where
  "accept_one i s =
     (let (io, iop) = get_io_service (io_service_pool s);
          (wk, wp) = get_io_service_load (work_service_pool s)
                       (get_load (service_handler_pool s));
          (handler, hp) = get_service_handler (service_handler_pool s) io wk
      in s\<lparr>io_service_pool := iop,
           work_service_pool := wp,
           service_handler_pool := hp,
           acceptors := (acceptors s)
             [i := (acceptors s ! i)\<lparr>acc_pending := acc_pending (acceptors s ! i) @ [handler]\<rparr>],
           trace := trace s @ [Acceptor_async_accept i handler]\<rparr>)"

text \<open>\<^verbatim>\<open>handle_accept\<close>: the completion handler bound by \<open>accept_one\<close>.\<close>

definition handle_accept :: "error_code \<Rightarrow> handler_id \<Rightarrow> nat \<Rightarrow> server \<Rightarrow> server" where
  "handle_accept e handler i s =
     (if e = 0 then accept_one i (handler_start handler s)
      else handler_close handler e s)"

subsection \<open>Starting up\<close>

definition and_then :: "'e + 'a \<Rightarrow> ('a \<Rightarrow> 'e + 'b) \<Rightarrow> 'e + 'b" where
  "and_then r f = (case r of Inl e \<Rightarrow> Inl e | Inr a \<Rightarrow> f a)"

text \<open>One call on acceptor \<open>i\<close> that may throw: the call is recorded; when the platform
  refuses it the exception leaves with the error and the state reached, otherwise \<open>f\<close> is
  what the call does to the acceptor.\<close>

definition acceptor_call ::
  "platform \<Rightarrow> nat \<Rightarrow> acceptor_op \<Rightarrow> call \<Rightarrow> (acceptor \<Rightarrow> acceptor) \<Rightarrow> server
     \<Rightarrow> (error_code \<times> server) + server" where
  "acceptor_call os i op c f s =
     (let s' = s\<lparr>trace := trace s @ [c]\<rparr> in
      if os i op \<noteq> 0 then Inl (os i op, s')
      else Inr (s'\<lparr>acceptors := (acceptors s')[i := f (acceptors s' ! i)]\<rparr>))"

text \<open>The body of the first loop of \<^verbatim>\<open>run\<close>, for index \<open>i\<close>.\<close>

definition open_acceptor :: "platform \<Rightarrow> nat \<Rightarrow> server \<Rightarrow> (error_code \<times> server) + server" where
  "open_acceptor os i s =
     and_then (acceptor_call os i Op_open (Acceptor_open i (ep_protocol (endpoint s)))
                 (\<lambda>a. a\<lparr>acc_open := Some (ep_protocol (endpoint s))\<rparr>) s) (\<lambda>s.
     and_then (acceptor_call os i Op_set_option (Acceptor_set_reuse_address i True)
                 (\<lambda>a. a\<lparr>acc_reuse_address := True\<rparr>) s) (\<lambda>s.
     and_then (acceptor_call os i Op_bind (Acceptor_bind i (endpoint s))
                 (\<lambda>a. a\<lparr>acc_bound := Some (endpoint s)\<rparr>) s) (\<lambda>s.
     and_then (acceptor_call os i Op_listen (Acceptor_listen i)
                 (\<lambda>a. a\<lparr>acc_listening := True\<rparr>) s) (\<lambda>s.
     Inr (accept_one i s)))))"

text \<open>The first loop of \<^verbatim>\<open>run\<close>, over the indices still to visit.\<close>

fun open_acceptors :: "platform \<Rightarrow> nat list \<Rightarrow> server \<Rightarrow> (error_code \<times> server) + server" where
  "open_acceptors os [] s = Inr s"
| "open_acceptors os (i # is) s = and_then (open_acceptor os i s) (open_acceptors os is)"

text \<open>\<^verbatim>\<open>run\<close> from its first loop to \<^verbatim>\<open>started_ = true\<close>.\<close>

definition run_startup :: "platform \<Rightarrow> server \<Rightarrow> (error_code \<times> server) + server" where
  "run_startup os s =
     and_then (open_acceptors os [0 ..< length (acceptors s)] s) (\<lambda>s.
     Inr ((io_pool_start (work_pool_start s))\<lparr>started := True\<rparr>))"

text \<open>The calls one iteration of that loop makes when nothing is refused, for the acceptor
  index and the handler checked out.\<close>

definition opening_calls :: "endpoint \<Rightarrow> nat \<times> handler_id \<Rightarrow> call list" where
  "opening_calls ep ih =
     [Acceptor_open (fst ih) (ep_protocol ep), Acceptor_set_reuse_address (fst ih) True,
      Acceptor_bind (fst ih) ep, Acceptor_listen (fst ih),
      Acceptor_async_accept (fst ih) (snd ih)]"

subsection \<open>Stopping\<close>

definition dispatch_close :: "nat \<Rightarrow> server \<Rightarrow> server" where
  "dispatch_close i s =
     s\<lparr>acceptors := (acceptors s)[i := (acceptors s ! i)\<lparr>acc_close_dispatched := True\<rparr>],
       trace := trace s @ [Acceptor_dispatch_close i]\<rparr>"

text \<open>\<^verbatim>\<open>stop\<close>.\<close>

definition stop :: "server \<Rightarrow> server" where
  "stop s =
     (if \<not> started s then s
      else acceptor_pool_stop (fold dispatch_close [0 ..< length (acceptors s)] s))"

subsection \<open>The blocking run of the acceptor pool\<close>

text \<open>What reaches the acceptor loops while \<^verbatim>\<open>acceptor_service_pool_.run()\<close> blocks: the
  completion of the oldest outstanding accept of an acceptor, with its error code, or a
  call of \<^verbatim>\<open>stop()\<close> from another thread.\<close>

datatype run_event = Accept_completed nat error_code | Stop_requested

definition complete_accept :: "nat \<Rightarrow> error_code \<Rightarrow> server \<Rightarrow> server" where
  "complete_accept i e s =
     (if length (acceptors s) \<le> i then s
      else case acc_pending (acceptors s ! i) of
             [] \<Rightarrow> s
           | h # hs \<Rightarrow>
               handle_accept e h i
                 (s\<lparr>acceptors := (acceptors s)[i := (acceptors s ! i)\<lparr>acc_pending := hs\<rparr>]\<rparr>))"

text \<open>The close dispatched to acceptor \<open>i\<close> runs on its loop: the acceptor is closed and its
  outstanding accepts complete with \<open>operation_aborted\<close>.\<close>

definition run_close :: "nat \<Rightarrow> server \<Rightarrow> server" where
  "run_close i s =
     (if \<not> acc_close_dispatched (acceptors s ! i) then s
      else fold (\<lambda>h. handle_accept operation_aborted h i) (acc_pending (acceptors s ! i))
             (s\<lparr>acceptors := (acceptors s)[i := acceptor_new (acc_io_service (acceptors s ! i))]\<rparr>))"

text \<open>Modelled from the spec: section 4.5, \<^verbatim>\<open>run()\<close> on the acceptor pool blocks the caller
  until shutdown. The events are handled in order; once \<^verbatim>\<open>stop()\<close> has stopped the pool the
  dispatched closes run and the call returns. A script without such a stop never lets it
  return (\<open>None\<close>).\<close>

fun acceptor_pool_events :: "run_event list \<Rightarrow> server \<Rightarrow> server option" where
  "acceptor_pool_events [] s = None"
| "acceptor_pool_events (Accept_completed i e # evs) s =
     acceptor_pool_events evs (complete_accept i e s)"
| "acceptor_pool_events (Stop_requested # evs) s =
     (let s' = stop s in
      if running (acceptor_service_pool s') then acceptor_pool_events evs s'
      else Some (fold run_close [0 ..< length (acceptors s')] s'))"

definition acceptor_pool_run :: "run_event list \<Rightarrow> server \<Rightarrow> server option" where
  "acceptor_pool_run evs s =
     acceptor_pool_events evs
       (s\<lparr>acceptor_service_pool := (acceptor_service_pool s)\<lparr>running := True\<rparr>,
          trace := trace s @ [Pool_run Acceptor_pool]\<rparr>)"

subsection \<open>Shutting down and run\<close>

text \<open>The body of the \<^verbatim>\<open>while\<close> loop of the graceful branch.\<close>

definition restart_and_stop :: "server \<Rightarrow> server" where
  "restart_and_stop s =
     work_pool_stop False (io_pool_stop False (io_pool_start (work_pool_start s)))"

text \<open>The \<^verbatim>\<open>while\<close> loop; \<open>None\<close> when it never ends.\<close>

partial_function (option) drain_pools :: "server \<Rightarrow> server option" where
  "drain_pools s =
     (if \<not> is_free (io_service_pool s) \<or> \<not> is_free (work_service_pool s)
      then drain_pools (restart_and_stop s)
      else Some s)"

declare drain_pools.simps [code]

text \<open>\<^verbatim>\<open>run\<close> after the blocking call has returned.\<close>

definition run_shutdown :: "bool \<Rightarrow> server \<Rightarrow> server option" where
  "run_shutdown force_stop s =
     (if force_stop
      then Some ((work_pool_stop force_stop (io_pool_stop force_stop s))\<lparr>started := False\<rparr>)
      else map_option (\<lambda>s. s\<lparr>started := False\<rparr>)
             (drain_pools (work_pool_stop False (io_pool_stop False s))))"

text \<open>\<^verbatim>\<open>run(force_stop)\<close>; \<^verbatim>\<open>run()\<close> is \<^verbatim>\<open>run(false)\<close>. \<open>os\<close> and \<open>evs\<close> are what the platform
  answers and what happens while the call blocks. The result is \<open>None\<close> when the call never returns, \<open>Inl\<close> when an
  exception leaves it and \<open>Inr\<close> when it returns.\<close>

definition run ::
  "platform \<Rightarrow> run_event list \<Rightarrow> bool \<Rightarrow> server \<Rightarrow> ((error_code \<times> server) + server) option" where
  "run os evs force_stop s =
     (if started s then Some (Inr s)
      else case run_startup os s of
             Inl x \<Rightarrow> Some (Inl x)
           | Inr s1 \<Rightarrow>
               (case acceptor_pool_run evs s1 of
                  None \<Rightarrow> None
                | Some s2 \<Rightarrow> map_option Inr (run_shutdown force_stop s2)))"

section \<open>The proxy work objects (examples/proxy/server)\<close>

subsection \<open>Events and the steps of a callback\<close>

text \<open>Modelled from the spec: \<^verbatim>\<open>bas::event\<close> is declared in \<^verbatim>\<open>bas/service_handler.hpp\<close>, which
  is not among the sources. Section 4.6 enumerates the event vocabulary; an event carries a
  state and a value (\<^verbatim>\<open>state_\<close>, \<^verbatim>\<open>value_\<close>), the value being \<open>0\<close> when the constructor is
  given none.\<close>

datatype event_state = parent_write | parent_close | child_open | child_write | child_close

record event =
  ev_state :: event_state
  ev_value :: nat

definition event1 :: "event_state \<Rightarrow> event" where
  "event1 st = \<lparr>ev_state = st, ev_value = 0\<rparr>"

definition event2 :: "event_state \<Rightarrow> nat \<Rightarrow> event" where
  "event2 st n = \<lparr>ev_state = st, ev_value = n\<rparr>"

text \<open>What a callback does, statement by statement: a call on its own handler
  (\<^verbatim>\<open>handler.async_read_some()\<close>, \<^verbatim>\<open>handler.async_write(buffer(h->read_buffer().data(), n))\<close>
  with the handler \<open>h\<close> whose read buffer is the source, \<^verbatim>\<open>handler.close()\<close>), a call on the
  peer the pointer names (\<^verbatim>\<open>h->post_parent(ev)\<close>, \<^verbatim>\<open>h->post_child(ev)\<close>), the call
  \<^verbatim>\<open>client_.connect(handler)\<close>, an assignment to the peer pointer, or output on
  \<^verbatim>\<open>std::cout\<close>.\<close>

datatype step =
  Connect
| Post_parent handler_id event
| Post_child handler_id event
| Async_read_some
| Async_write handler_id nat
| Close
| Assign_peer "handler_id option"
| Print_ok string
| Print_error string error_code

text \<open>Dereferencing a null peer pointer.\<close>

datatype fault = Null_pointer

type_synonym 'w outcome = "fault + 'w \<times> step list"

text \<open>The values on Linux of the \<^verbatim>\<open>boost::asio::error\<close> constants the two \<^verbatim>\<open>on_close\<close>
  switch on.\<close>

definition eof :: error_code where "eof = 2"
definition connection_aborted :: error_code where "connection_aborted = 103"
definition connection_reset :: error_code where "connection_reset = 104"
definition connection_refused :: error_code where "connection_refused = 111"
definition timed_out :: error_code where "timed_out = 110"
definition no_buffer_space :: error_code where "no_buffer_space = 105"

text \<open>The \<^verbatim>\<open>switch (e.value())\<close> at the end of both \<^verbatim>\<open>on_close\<close>; \<open>who\<close> is \<^verbatim>\<open>source\<close> or
  \<^verbatim>\<open>target\<close>, \<open>tail\<close> the rest of the line printed on success.\<close>

definition report :: "string \<Rightarrow> string \<Rightarrow> error_code \<Rightarrow> step list" where
  "report who tail e =
     (if e = 0 \<or> e = eof then [Print_ok (who @ '' ok '' @ tail)]
      else if e = connection_aborted \<or> e = connection_reset \<or> e = connection_refused then []
      else [Print_error (who @ '' error '') e])"

subsection \<open>proxy::server\_work\<close>

text \<open>The member \<^verbatim>\<open>child_handler_\<close>; \<open>None\<close> is the null pointer. The reference \<^verbatim>\<open>client_\<close>
  is only ever used for \<^verbatim>\<open>connect\<close>.\<close>

record server_work =
  child_handler :: "handler_id option"

definition server_work_new :: server_work where
  "server_work_new = \<lparr>child_handler = None\<rparr>"

definition sw_on_set_child :: "server_work \<Rightarrow> handler_id option \<Rightarrow> server_work" where
  "sw_on_set_child w c = w\<lparr>child_handler := c\<rparr>"

definition sw_on_clear :: "server_work \<Rightarrow> server_work" where
  "sw_on_clear w = w"

definition sw_on_open :: "server_work \<Rightarrow> server_work outcome" where
  "sw_on_open w = Inr (w, [Connect])"

definition sw_on_read :: "server_work \<Rightarrow> nat \<Rightarrow> server_work outcome" where
  "sw_on_read w bytes_transferred =
     (case child_handler w of
        None \<Rightarrow> Inl Null_pointer
      | Some c \<Rightarrow> Inr (w, [Post_parent c (event2 parent_write bytes_transferred)]))"

definition sw_on_write :: "server_work \<Rightarrow> nat \<Rightarrow> server_work outcome" where
  "sw_on_write w bytes_transferred = Inr (w, [Async_read_some])"

definition sw_on_close :: "server_work \<Rightarrow> error_code \<Rightarrow> server_work outcome" where
  "sw_on_close w e =
     (case child_handler w of
        None \<Rightarrow> Inr (w, report ''source'' ''...............'' e)
      | Some c \<Rightarrow>
          Inr (w\<lparr>child_handler := None\<rparr>,
               [Post_parent c (event1 parent_close), Assign_peer None]
               @ report ''source'' ''...............'' e))"

definition sw_on_parent :: "server_work \<Rightarrow> event \<Rightarrow> server_work outcome" where
  "sw_on_parent w ev = Inr (w, [])"

definition sw_on_child :: "server_work \<Rightarrow> event \<Rightarrow> server_work outcome" where
  "sw_on_child w ev =
     (case ev_state ev of
        child_open \<Rightarrow> Inr (w, [Async_read_some])
      | child_write \<Rightarrow>
          (case child_handler w of
             None \<Rightarrow> Inl Null_pointer
           | Some c \<Rightarrow> Inr (w, [Async_write c (ev_value ev)]))
      | child_close \<Rightarrow> Inr (w\<lparr>child_handler := None\<rparr>, [Assign_peer None, Close])
      | _ \<Rightarrow> Inr (w, []))"

subsection \<open>proxy::client\_work\<close>

text \<open>The member \<^verbatim>\<open>parent_handler_\<close>.\<close>

record client_work =
  parent_handler :: "handler_id option"

definition client_work_new :: client_work where
  "client_work_new = \<lparr>parent_handler = None\<rparr>"

definition cw_on_set_parent :: "client_work \<Rightarrow> handler_id option \<Rightarrow> client_work" where
  "cw_on_set_parent w p = w\<lparr>parent_handler := p\<rparr>"

definition cw_on_clear :: "client_work \<Rightarrow> client_work" where
  "cw_on_clear w = w"

definition cw_on_open :: "client_work \<Rightarrow> client_work outcome" where
  "cw_on_open w =
     (case parent_handler w of
        None \<Rightarrow> Inl Null_pointer
      | Some p \<Rightarrow> Inr (w, [Post_child p (event1 child_open)]))"

definition cw_on_read :: "client_work \<Rightarrow> nat \<Rightarrow> client_work outcome" where
  "cw_on_read w bytes_transferred =
     (case parent_handler w of
        None \<Rightarrow> Inl Null_pointer
      | Some p \<Rightarrow> Inr (w, [Post_child p (event2 child_write bytes_transferred)]))"

definition cw_on_write :: "client_work \<Rightarrow> nat \<Rightarrow> client_work outcome" where
  "cw_on_write w bytes_transferred = Inr (w, [Async_read_some])"

definition cw_on_close :: "client_work \<Rightarrow> error_code \<Rightarrow> client_work outcome" where
  "cw_on_close w e =
     (case parent_handler w of
        None \<Rightarrow> Inr (w, report ''target'' ''***************'' e)
      | Some p \<Rightarrow>
          Inr (w\<lparr>parent_handler := None\<rparr>,
               [Post_child p (event1 child_close), Assign_peer None]
               @ report ''target'' ''***************'' e))"

definition cw_on_parent :: "client_work \<Rightarrow> event \<Rightarrow> client_work outcome" where
  "cw_on_parent w ev =
     (case ev_state ev of
        parent_write \<Rightarrow>
          (case parent_handler w of
             None \<Rightarrow> Inl Null_pointer
           | Some p \<Rightarrow> Inr (w, [Async_write p (ev_value ev)]))
      | parent_close \<Rightarrow> Inr (w\<lparr>parent_handler := None\<rparr>, [Assign_peer None, Close])
      | _ \<Rightarrow> Inr (w, []))"

definition cw_on_child :: "client_work \<Rightarrow> event \<Rightarrow> client_work outcome" where
  "cw_on_child w ev = Inr (w, [])"

section \<open>A parent and its child\<close>

subsection \<open>The service handlers\<close>

text \<open>A callback posted to a handler's work loop.\<close>

datatype callback =
  Cb_open
| Cb_read nat
| Cb_write nat
| Cb_close error_code
| Cb_parent event
| Cb_child event

text \<open>Modelled from the spec: \<^verbatim>\<open>bas/service_handler.hpp\<close> is not among the sources. Sections 3
  and 4.3 give a handler a work loop that runs its callbacks one at a time in the order they
  were posted, a stopped flag that flips once, single-shot reads and writes that complete
  later, a fixed-size read buffer, and \<^verbatim>\<open>on_close\<close> as the last callback of a session.
  \<open>writes_armed\<close> holds, for each outstanding write, the handler whose read buffer is the
  source and the byte count; \<open>sent\<close> is what has been written to the socket.\<close>

record handler =
  work_queue :: "callback list"
  stopped :: bool
  on_close_runs :: nat
  reads_armed :: nat
  writes_armed :: "(handler_id \<times> nat) list"
  read_buffer :: "8 word list"
  sent :: "8 word list"

definition handler_new :: "8 word list \<Rightarrow> handler" where
  "handler_new buf =
     \<lparr>work_queue = [], stopped = False, on_close_runs = 0, reads_armed = 0,
      writes_armed = [], read_buffer = buf, sent = []\<rparr>"

text \<open>How the program ends when it leaves defined behaviour: a callback of a handler
  dereferenced a null peer pointer, or a write read past the end of its source buffer.\<close>

datatype crash = Null_dereference handler_id callback | Buffer_overrun handler_id

text \<open>The two handlers live in a store indexed by their addresses; the parent owns the
  \<open>server_work\<close>, the child the \<open>client_work\<close>.\<close>

record pair =
  store :: "handler_id \<Rightarrow> handler"
  parent_work :: server_work
  child_work :: client_work
  crashed :: "crash option"

definition parent_id :: handler_id where
  "parent_id = 0"

definition child_id :: handler_id where
  "child_id = 1"

definition upd :: "handler_id \<Rightarrow> (handler \<Rightarrow> handler) \<Rightarrow> pair \<Rightarrow> pair" where
  "upd x f s = s\<lparr>store := (store s)(x := f (store s x))\<rparr>"

text \<open>Modelled from the spec: \<^verbatim>\<open>post_parent\<close> and \<^verbatim>\<open>post_child\<close> enqueue an event delivery on
  the work loop of the handler they are called on.\<close>

definition post :: "handler_id \<Rightarrow> callback \<Rightarrow> pair \<Rightarrow> pair" where
  "post x cb s = upd x (\<lambda>h. h\<lparr>work_queue := work_queue h @ [cb]\<rparr>) s"

text \<open>Modelled from the spec: \<^verbatim>\<open>close(err)\<close> initiates shutdown and is idempotent; on entering
  \<^verbatim>\<open>closing\<close> the outstanding operations are cancelled and \<^verbatim>\<open>on_close(err)\<close> is posted to the
  work loop.\<close>

definition handler_shutdown :: "handler_id \<Rightarrow> error_code \<Rightarrow> pair \<Rightarrow> pair" where
  "handler_shutdown x e s =
     (if stopped (store s x) then s
      else upd x (\<lambda>h. h\<lparr>stopped := True, reads_armed := 0, writes_armed := [],
                        work_queue := work_queue h @ [Cb_close e]\<rparr>) s)"

text \<open>Modelled from the spec: \<^verbatim>\<open>async_read_some()\<close> schedules a single-shot read and
  \<^verbatim>\<open>async_write(buf, n)\<close> a write; on a handler that is shutting down there is no socket
  left to start them on.\<close>

definition arm_read :: "handler_id \<Rightarrow> pair \<Rightarrow> pair" where
  "arm_read x s =
     (if stopped (store s x) then s
      else upd x (\<lambda>h. h\<lparr>reads_armed := reads_armed h + 1\<rparr>) s)"

definition arm_write :: "handler_id \<Rightarrow> handler_id \<Rightarrow> nat \<Rightarrow> pair \<Rightarrow> pair" where
  "arm_write x src n s =
     (if stopped (store s x) then s
      else upd x (\<lambda>h. h\<lparr>writes_armed := writes_armed h @ [(src, n)]\<rparr>) s)"

text \<open>One step of a callback running on handler \<open>x\<close>. \<^verbatim>\<open>client_.connect\<close> starts another
  pair; the assignment is already in the work object the callback returns.\<close>

fun exec :: "handler_id \<Rightarrow> step \<Rightarrow> pair \<Rightarrow> pair" where
  "exec x Connect s = s"
| "exec x (Post_parent t ev) s = post t (Cb_parent ev) s"
| "exec x (Post_child t ev) s = post t (Cb_child ev) s"
| "exec x Async_read_some s = arm_read x s"
| "exec x (Async_write src n) s = arm_write x src n s"
| "exec x Close s = handler_shutdown x 0 s"
| "exec x (Assign_peer v) s = s"
| "exec x (Print_ok m) s = s"
| "exec x (Print_error m e) s = s"

definition sw_callback :: "server_work \<Rightarrow> callback \<Rightarrow> server_work outcome" where
  "sw_callback w cb =
     (case cb of
        Cb_open \<Rightarrow> sw_on_open w
      | Cb_read n \<Rightarrow> sw_on_read w n
      | Cb_write n \<Rightarrow> sw_on_write w n
      | Cb_close e \<Rightarrow> sw_on_close w e
      | Cb_parent ev \<Rightarrow> sw_on_parent w ev
      | Cb_child ev \<Rightarrow> sw_on_child w ev)"

definition cw_callback :: "client_work \<Rightarrow> callback \<Rightarrow> client_work outcome" where
  "cw_callback w cb =
     (case cb of
        Cb_open \<Rightarrow> cw_on_open w
      | Cb_read n \<Rightarrow> cw_on_read w n
      | Cb_write n \<Rightarrow> cw_on_write w n
      | Cb_close e \<Rightarrow> cw_on_close w e
      | Cb_parent ev \<Rightarrow> cw_on_parent w ev
      | Cb_child ev \<Rightarrow> cw_on_child w ev)"

text \<open>Counting the runs of \<^verbatim>\<open>on_close\<close>.\<close>

definition returned :: "handler_id \<Rightarrow> callback \<Rightarrow> pair \<Rightarrow> pair" where
  "returned x cb s =
     (case cb of
        Cb_close e \<Rightarrow> upd x (\<lambda>h. h\<lparr>on_close_runs := on_close_runs h + 1\<rparr>) s
      | _ \<Rightarrow> s)"

text \<open>Modelled from the spec: the work loop of handler \<open>x\<close> takes the oldest posted callback
  and runs it on the owning work object; nothing is delivered after \<^verbatim>\<open>on_close\<close>.\<close>

definition deliver :: "handler_id \<Rightarrow> pair \<Rightarrow> pair" where
  "deliver x s =
     (case work_queue (store s x) of
        [] \<Rightarrow> s
      | cb # q \<Rightarrow>
          (let s1 = upd x (\<lambda>h. h\<lparr>work_queue := q\<rparr>) s in
           if 0 < on_close_runs (store s x) then s1
           else if x = parent_id then
             (case sw_callback (parent_work s) cb of
                Inl f \<Rightarrow> s1\<lparr>crashed := Some (Null_dereference x cb)\<rparr>
              | Inr (w, steps) \<Rightarrow> returned x cb (fold (exec x) steps (s1\<lparr>parent_work := w\<rparr>)))
           else if x = child_id then
             (case cw_callback (child_work s) cb of
                Inl f \<Rightarrow> s1\<lparr>crashed := Some (Null_dereference x cb)\<rparr>
              | Inr (w, steps) \<Rightarrow> returned x cb (fold (exec x) steps (s1\<lparr>child_work := w\<rparr>)))
           else s1))"

text \<open>Modelled from the spec: an outstanding read completes with \<open>data\<close>, which lands at the
  start of the read buffer, and \<^verbatim>\<open>on_read(bytes)\<close> is posted to the work loop; or it fails and
  the handler shuts down with the error.\<close>

definition read_completes :: "handler_id \<Rightarrow> 8 word list \<Rightarrow> pair \<Rightarrow> pair" where
  "read_completes x data s =
     (if stopped (store s x) \<or> reads_armed (store s x) = 0
         \<or> length (read_buffer (store s x)) < length data then s
      else upd x (\<lambda>h. h\<lparr>reads_armed := reads_armed h - 1,
                        read_buffer := data @ drop (length data) (read_buffer h),
                        work_queue := work_queue h @ [Cb_read (length data)]\<rparr>) s)"

definition read_fails :: "handler_id \<Rightarrow> error_code \<Rightarrow> pair \<Rightarrow> pair" where
  "read_fails x e s =
     (if stopped (store s x) \<or> reads_armed (store s x) = 0 then s
      else handler_shutdown x e s)"

text \<open>Modelled from the spec: the oldest outstanding write completes: the first \<open>n\<close> bytes
  of the source buffer have gone to the socket and \<^verbatim>\<open>on_write(bytes)\<close> is posted; or it fails.
  \<^verbatim>\<open>boost::asio::buffer(p, n)\<close> does not check \<open>n\<close> against the size of what \<open>p\<close> points to.\<close>

definition write_completes :: "handler_id \<Rightarrow> pair \<Rightarrow> pair" where
  "write_completes x s =
     (if stopped (store s x) then s
      else case writes_armed (store s x) of
             [] \<Rightarrow> s
           | (src, n) # ws \<Rightarrow>
               if length (read_buffer (store s src)) < n
               then s\<lparr>crashed := Some (Buffer_overrun x)\<rparr>
               else upd x (\<lambda>h. h\<lparr>writes_armed := ws,
                                 sent := sent h @ take n (read_buffer (store s src)),
                                 work_queue := work_queue h @ [Cb_write n]\<rparr>) s)"

definition write_fails :: "handler_id \<Rightarrow> error_code \<Rightarrow> pair \<Rightarrow> pair" where
  "write_fails x e s =
     (if stopped (store s x) \<or> writes_armed (store s x) = [] then s
      else handler_shutdown x e s)"

text \<open>What can happen to a pair: a work loop runs its next callback, an operation on a
  socket completes or fails, or a session timer expires (\<^verbatim>\<open>close(timed_out)\<close>).\<close>

datatype pair_event =
  Deliver handler_id
| Read_completes handler_id "8 word list"
| Read_fails handler_id error_code
| Write_completes handler_id
| Write_fails handler_id error_code
| Timer_expires handler_id

text \<open>Nothing happens any more once the program has crashed.\<close>

definition pair_step :: "pair_event \<Rightarrow> pair \<Rightarrow> pair" where
  "pair_step ev s =
     (if crashed s \<noteq> None then s
      else case ev of
             Deliver x \<Rightarrow> deliver x s
           | Read_completes x data \<Rightarrow> read_completes x data s
           | Read_fails x e \<Rightarrow> read_fails x e s
           | Write_completes x \<Rightarrow> write_completes x s
           | Write_fails x e \<Rightarrow> write_fails x e s
           | Timer_expires x \<Rightarrow> handler_shutdown x timed_out s)"

definition pair_run :: "pair_event list \<Rightarrow> pair \<Rightarrow> pair" where
  "pair_run evs s = fold pair_step evs s"

text \<open>Modelled from the spec: section 4.6, a successful \<^verbatim>\<open>connect\<close> wires parent and child
  and posts \<^verbatim>\<open>on_open\<close> to the child's work loop. \<open>pb\<close> and \<open>cb\<close> are the two read buffers.\<close>

definition wired :: "8 word list \<Rightarrow> 8 word list \<Rightarrow> pair" where
  "wired pb cb =
     \<lparr>store = (\<lambda>x. handler_new [])
        (parent_id := handler_new pb,
         child_id := (handler_new cb)\<lparr>work_queue := [Cb_open]\<rparr>),
      parent_work = sw_on_set_child server_work_new (Some child_id),
      child_work = cw_on_set_parent client_work_new (Some parent_id),
      crashed = None\<rparr>"

subsection \<open>What is in flight between the two\<close>

text \<open>The steps of a callback that went through, none for one that dereferenced null.\<close>

definition steps_of :: "'w outcome \<Rightarrow> step list" where
  "steps_of r = (case r of Inl f \<Rightarrow> [] | Inr (w, steps) \<Rightarrow> steps)"

text \<open>A step that posts a close-event to the peer.\<close>

fun signals_close :: "step \<Rightarrow> bool" where
  "signals_close (Post_parent t ev) = (ev_state ev = parent_close)"
| "signals_close (Post_child t ev) = (ev_state ev = child_close)"
| "signals_close st = False"

text \<open>The peer pointer is nulled at some step before the first one that posts a
  close-event.\<close>

definition clears_before_signalling :: "step list \<Rightarrow> bool" where
  "clears_before_signalling steps =
     (Assign_peer None \<in> set (takeWhile (\<lambda>st. \<not> signals_close st) steps))"

text \<open>The first step that posts a close-event or nulls the peer pointer posts the
  close-event, and the step right after it nulls the pointer.\<close>

definition signals_then_clears :: "step list \<Rightarrow> bool" where
  "signals_then_clears steps =
     (case dropWhile (\<lambda>st. \<not> signals_close st \<and> st \<noteq> Assign_peer None) steps of
        st # st' # rest \<Rightarrow> signals_close st \<and> st' = Assign_peer None
      | _ \<Rightarrow> False)"

text \<open>The data moves round the pair as a single baton: a callback that carries data or
  asks for it, an outstanding read, an outstanding write. \<open>cb_token\<close> and \<open>step_token\<close> count
  what a queued callback and a step of a callback contribute.\<close>

fun cb_token :: "callback \<Rightarrow> nat" where
  "cb_token Cb_open = 1"
| "cb_token (Cb_read n) = 1"
| "cb_token (Cb_write n) = 1"
| "cb_token (Cb_close e) = 0"
| "cb_token (Cb_parent ev) = (if ev_state ev = parent_write then 1 else 0)"
| "cb_token (Cb_child ev) = (if ev_state ev = child_open \<or> ev_state ev = child_write then 1 else 0)"

fun step_token :: "step \<Rightarrow> nat" where
  "step_token (Post_parent t ev) = cb_token (Cb_parent ev)"
| "step_token (Post_child t ev) = cb_token (Cb_child ev)"
| "step_token Async_read_some = 1"
| "step_token (Async_write src n) = 1"
| "step_token st = 0"

definition tokens :: "handler \<Rightarrow> nat" where
  "tokens h = reads_armed h + length (writes_armed h) + sum_list (map cb_token (work_queue h))"

definition pair_tokens :: "pair \<Rightarrow> nat" where
  "pair_tokens s = tokens (store s parent_id) + tokens (store s child_id)"

text \<open>The parent's read buffer holds data the child has not finished with: the parent has
  yet to run \<^verbatim>\<open>on_read\<close> for it, or the \<^verbatim>\<open>parent_write\<close> is queued at the child, or the
  child's write from that buffer is outstanding.\<close>

fun is_on_read :: "callback \<Rightarrow> bool" where
  "is_on_read (Cb_read n) = True"
| "is_on_read cb = False"

fun is_parent_write :: "callback \<Rightarrow> bool" where
  "is_parent_write (Cb_parent ev) = (ev_state ev = parent_write)"
| "is_parent_write cb = False"

definition parent_buffer_busy :: "pair \<Rightarrow> bool" where
  "parent_buffer_busy s =
     (list_ex is_on_read (work_queue (store s parent_id))
      \<or> list_ex is_parent_write (work_queue (store s child_id))
      \<or> list_ex (\<lambda>w. fst w = parent_id) (writes_armed (store s child_id)))"

text \<open>A callback in the queue of handler \<open>x\<close> that ends its session: its own
  \<^verbatim>\<open>on_close\<close>, or the close-event of its peer.\<close>

fun closes_parent :: "callback \<Rightarrow> bool" where
  "closes_parent (Cb_close e) = True"
| "closes_parent (Cb_child ev) = (ev_state ev = child_close)"
| "closes_parent cb = False"

fun closes_child :: "callback \<Rightarrow> bool" where
  "closes_child (Cb_close e) = True"
| "closes_child (Cb_parent ev) = (ev_state ev = parent_close)"
| "closes_child cb = False"

definition close_pending :: "handler_id \<Rightarrow> pair \<Rightarrow> bool" where
  "close_pending x s =
     list_ex (if x = parent_id then closes_parent else closes_child) (work_queue (store s x))"

fun is_on_close :: "callback \<Rightarrow> bool" where
  "is_on_close (Cb_close e) = True"
| "is_on_close cb = False"

fun is_child_close :: "callback \<Rightarrow> bool" where
  "is_child_close (Cb_child ev) = (ev_state ev = child_close)"
| "is_child_close cb = False"

fun is_parent_close :: "callback \<Rightarrow> bool" where
  "is_parent_close (Cb_parent ev) = (ev_state ev = parent_close)"
| "is_parent_close cb = False"

text \<open>What holds of a pair from the moment it is wired: \<^verbatim>\<open>on_close\<close> has run at most once on
  each side; a side that is shutting down has its \<^verbatim>\<open>on_close\<close> queued; a close-event in a
  queue comes from a peer whose \<^verbatim>\<open>on_close\<close> has run; a peer pointer is null only once one
  of the two \<^verbatim>\<open>on_close\<close> has run, and otherwise names the peer; and when \<^verbatim>\<open>on_close\<close> has
  run on one side only, the other side has its end queued.\<close>

definition pair_inv :: "pair \<Rightarrow> bool" where
  "pair_inv s =
     (on_close_runs (store s parent_id) \<le> 1
      \<and> on_close_runs (store s child_id) \<le> 1
      \<and> (stopped (store s parent_id) \<and> on_close_runs (store s parent_id) = 0 \<longrightarrow>
           list_ex is_on_close (work_queue (store s parent_id)))
      \<and> (stopped (store s child_id) \<and> on_close_runs (store s child_id) = 0 \<longrightarrow>
           list_ex is_on_close (work_queue (store s child_id)))
      \<and> (list_ex is_child_close (work_queue (store s parent_id)) \<longrightarrow>
           0 < on_close_runs (store s child_id))
      \<and> (list_ex is_parent_close (work_queue (store s child_id)) \<longrightarrow>
           0 < on_close_runs (store s parent_id))
      \<and> (child_handler (parent_work s) = None \<longrightarrow>
           0 < on_close_runs (store s parent_id) \<or> 0 < on_close_runs (store s child_id))
      \<and> (parent_handler (child_work s) = None \<longrightarrow>
           0 < on_close_runs (store s parent_id) \<or> 0 < on_close_runs (store s child_id))
      \<and> (child_handler (parent_work s) = None \<or> child_handler (parent_work s) = Some child_id)
      \<and> (parent_handler (child_work s) = None \<or> parent_handler (child_work s) = Some parent_id)
      \<and> (0 < on_close_runs (store s parent_id) \<and> on_close_runs (store s child_id) = 0 \<longrightarrow>
           close_pending child_id s)
      \<and> (0 < on_close_runs (store s child_id) \<and> on_close_runs (store s parent_id) = 0 \<longrightarrow>
           close_pending parent_id s))"

text \<open>Both work loops have run dry.\<close>

definition quiescent :: "pair \<Rightarrow> bool" where
  "quiescent s = (work_queue (store s parent_id) = [] \<and> work_queue (store s child_id) = [])"

text \<open>The work loop of handler \<open>x\<close> works off what is queued now and one callback more.\<close>

definition work_off :: "handler_id \<Rightarrow> pair \<Rightarrow> pair" where
  "work_off x s = pair_run (replicate (Suc (length (work_queue (store s x)))) (Deliver x)) s"

section \<open>A small configuration\<close>

text \<open>Two acceptors, two preallocated handlers, a work handler whose \<^verbatim>\<open>on_open\<close> starts a
  read whose completion posts one more callback.\<close>

definition example_pool :: service_handler_pool where
  "example_pool =
     \<lparr>preallocated = 2, free_list = [], in_use = 0, created = 0, sessions = Map.empty,
      closing = [], work_on_open = Task [Task [Task []]], work_on_close = Task []\<rparr>"

definition example_endpoint :: endpoint where
  "example_endpoint = \<lparr>ep_protocol = tcp_v4, ep_address = ''0.0.0.0'', ep_port = 1000\<rparr>"

definition example_server :: server where
  "example_server =
     (case server_new 16 100 (Some example_pool) example_endpoint 2 2 4 10 of
        Some s \<Rightarrow> s)"

text \<open>A platform that refuses nothing.\<close>

definition no_refusal :: platform where
  "no_refusal i op = 0"

text \<open>The example server once \<^verbatim>\<open>run\<close> has reached its blocking call.\<close>

definition example_running :: server where
  "example_running = (case run_startup no_refusal example_server of Inr s \<Rightarrow> s)"



text \<open>A pair with read buffers of four bytes, and some of the courses it can take: the
  parent's session timer expires while it waits for its first read; the same for the child;
  one request and its answer go through; and the child's timer expires just before the
  parent's read completes.\<close>

definition example_pair :: pair where
  "example_pair = wired [0, 0, 0, 0] [0, 0, 0, 0]"

definition parent_closes_first :: "pair_event list" where
  "parent_closes_first =
     [Deliver child_id, Deliver parent_id, Timer_expires parent_id, Deliver parent_id]"

definition child_closes_first :: "pair_event list" where
  "child_closes_first =
     [Deliver child_id, Deliver parent_id, Timer_expires child_id, Deliver child_id]"

definition request_read :: "pair_event list" where
  "request_read = [Deliver child_id, Deliver parent_id, Read_completes parent_id [1, 2, 3]]"

definition answer_read :: "pair_event list" where
  "answer_read =
     request_read
     @ [Deliver parent_id, Deliver child_id, Write_completes child_id, Deliver child_id,
        Read_completes child_id [9, 8], Deliver child_id]"

definition close_overtakes_read :: "pair_event list" where
  "close_overtakes_read =
     [Deliver child_id, Deliver parent_id, Timer_expires child_id, Deliver child_id,
      Read_completes parent_id [1, 2, 3], Deliver parent_id, Deliver parent_id]"

section \<open>Properties of the server\<close>

lemma example_server_eq:
  "example_server =
     \<lparr>service_handler_pool =
        \<lparr>preallocated = 2, free_list = [0, 1], in_use = 0, created = 2, sessions = Map.empty,
         closing = [], work_on_open = Task [Task [Task []]], work_on_close = Task []\<rparr>,
      acceptor_service_pool =
        \<lparr>pool_size = 2, next_io_service = 0, high_watermark = 16, thread_load = 100,
         running = False, queue = []\<rparr>,
      io_service_pool =
        \<lparr>pool_size = 2, next_io_service = 0, high_watermark = 16, thread_load = 100,
         running = False, queue = []\<rparr>,
      work_service_pool =
        \<lparr>pool_size = 2, next_io_service = 0, high_watermark = 4, thread_load = 10,
         running = False, queue = []\<rparr>,
      acceptors = [acceptor_new 0, acceptor_new 1],
      endpoint = example_endpoint, started = False, trace = []\<rparr>"
  by (simp add: example_server_def example_pool_def server_new_def io_service_pool_new_def
        get_io_service_def pool_init_def numeral_2_eq_2 upt_rec)

text \<open>C7. \<^verbatim>\<open>run\<close> on a server that is already started returns at once with the state as it
  was, and \<^verbatim>\<open>stop\<close> on a server that is not started returns at once with the state as it
  was.\<close>

theorem run_stop_guarded:
  "(started s \<longrightarrow> run os evs force_stop s = Some (Inr s)) \<and> (\<not> started t \<longrightarrow> stop t = t)"
  by (simp add: run_def stop_def)

theorem run_stop_guarded_witness:
  "started (example_server\<lparr>started := True\<rparr>)
   \<and> run no_refusal [Stop_requested] False (example_server\<lparr>started := True\<rparr>)
       = Some (Inr (example_server\<lparr>started := True\<rparr>))
   \<and> \<not> started example_server
   \<and> stop example_server = example_server"
  using run_stop_guarded
          [of "example_server\<lparr>started := True\<rparr>" no_refusal "[Stop_requested]" False
              example_server]
  by (simp add: example_server_eq)

subsection \<open>The example evaluated\<close>

lemma run_startup_example:
  "run_startup no_refusal example_server =
     Inr \<lparr>service_handler_pool =
        \<lparr>preallocated = 2, free_list = [], in_use = 2, created = 2,
         sessions = [0 \<mapsto> \<lparr>session_io = 0, session_work = 0, session_open = False\<rparr>,
                     1 \<mapsto> \<lparr>session_io = 1, session_work = 1, session_open = False\<rparr>],
         closing = [], work_on_open = Task [Task [Task []]], work_on_close = Task []\<rparr>,
      acceptor_service_pool =
        \<lparr>pool_size = 2, next_io_service = 0, high_watermark = 16, thread_load = 100,
         running = False, queue = []\<rparr>,
      io_service_pool =
        \<lparr>pool_size = 2, next_io_service = 0, high_watermark = 16, thread_load = 100,
         running = True, queue = []\<rparr>,
      work_service_pool =
        \<lparr>pool_size = 2, next_io_service = 0, high_watermark = 4, thread_load = 10,
         running = True, queue = []\<rparr>,
      acceptors =
        [\<lparr>acc_io_service = 0, acc_open = Some tcp_v4, acc_reuse_address = True,
          acc_bound = Some example_endpoint, acc_listening = True, acc_pending = [0],
          acc_close_dispatched = False\<rparr>,
         \<lparr>acc_io_service = 1, acc_open = Some tcp_v4, acc_reuse_address = True,
          acc_bound = Some example_endpoint, acc_listening = True, acc_pending = [1],
          acc_close_dispatched = False\<rparr>],
      endpoint = example_endpoint, started = True,
      trace =
        [Acceptor_open 0 tcp_v4, Acceptor_set_reuse_address 0 True,
         Acceptor_bind 0 example_endpoint, Acceptor_listen 0, Acceptor_async_accept 0 0,
         Acceptor_open 1 tcp_v4, Acceptor_set_reuse_address 1 True,
         Acceptor_bind 1 example_endpoint, Acceptor_listen 1, Acceptor_async_accept 1 1,
         Pool_start Work_pool, Pool_start Io_pool]\<rparr>"
  by (simp add: example_server_eq run_startup_def upt_rec open_acceptor_def
        and_then_def acceptor_call_def no_refusal_def acceptor_new_def accept_one_def
        get_io_service_def get_io_service_load_def required_size_def get_load_def
        get_service_handler_def work_pool_start_def io_pool_start_def pool_start_def
        example_endpoint_def)

lemmas example_running_eq = example_running_def [unfolded run_startup_example sum.case]





subsection \<open>Accepting\<close>

text \<open>C1, as stated: when an accept completes with an error the handler is recycled and the
  accept is re-armed on that acceptor, so the acceptor goes on accepting. It fails on the
  example server: the first acceptor has one accept outstanding; after that accept completes
  with error 5 it has none, and a connection arriving later finds nothing to complete.\<close>

theorem failed_accept_not_rearmed:
  "acc_pending (acceptors example_running ! 0) = [0]
   \<and> acc_pending (acceptors (complete_accept 0 5 example_running) ! 0) = []
   \<and> complete_accept 0 0 (complete_accept 0 5 example_running)
       = complete_accept 0 5 example_running"
  by (simp add: example_running_eq complete_accept_def handle_accept_def handler_close_def
        pool_post_def)

lemma fold_put_service_handler:
  "free_list (fold put_service_handler hs hp) = free_list hp @ hs"
  "sessions (fold put_service_handler hs hp) h = (if h \<in> set hs then None else sessions hp h)"
  by (induction hs arbitrary: hp) (simp_all add: put_service_handler_def)

text \<open>C1, amended: when an accept completes with an error, \<^verbatim>\<open>handle_accept\<close> makes the one
  call \<^verbatim>\<open>handler->close(e)\<close> and leaves every acceptor as it was: no accept is armed. The
  close itself recycles nothing: the handler stays checked out, and if it was checked out
  and not closing already, its \<^verbatim>\<open>on_close\<close> is posted to the work loop and it is marked as
  closing; it is back in the free list once a running work pool has run that \<^verbatim>\<open>on_close\<close>,
  at its cooperative stop. When the accept completes without error the handler is started
  and one more accept is armed on the same acceptor.\<close>

theorem handle_accept_cases:
  "(e \<noteq> 0 \<longrightarrow>
      trace (handle_accept e h i s) = trace s @ [Handler_close h e]
      \<and> acceptors (handle_accept e h i s) = acceptors s
      \<and> sessions (service_handler_pool (handle_accept e h i s))
          = sessions (service_handler_pool s)
      \<and> free_list (service_handler_pool (handle_accept e h i s))
          = free_list (service_handler_pool s)
      \<and> in_use (service_handler_pool (handle_accept e h i s)) = in_use (service_handler_pool s)
      \<and> (sessions (service_handler_pool s) h \<noteq> None
           \<and> h \<notin> set (closing (service_handler_pool s)) \<longrightarrow>
           queue (work_service_pool (handle_accept e h i s))
             = queue (work_service_pool s) @ [work_on_close (service_handler_pool s)]
           \<and> closing (service_handler_pool (handle_accept e h i s))
               = closing (service_handler_pool s) @ [h]
           \<and> (running (work_service_pool s) \<longrightarrow>
                sessions (service_handler_pool (work_pool_stop False (handle_accept e h i s))) h
                  = None
                \<and> h \<in> set (free_list
                             (service_handler_pool
                                (work_pool_stop False (handle_accept e h i s)))))))
   \<and> (e = 0 \<and> i < length (acceptors s) \<longrightarrow>
      (\<exists>h'. trace (handle_accept e h i s)
               = trace s @ [Handler_start h, Acceptor_async_accept i h']
            \<and> acc_pending (acceptors (handle_accept e h i s) ! i)
               = acc_pending (acceptors s ! i) @ [h']))"
proof (intro conjI impI)
  assume e: "e \<noteq> 0"
  then have ha: "handle_accept e h i s = handler_close h e s"
    by (simp add: handle_accept_def)
  show "trace (handle_accept e h i s) = trace s @ [Handler_close h e]"
    and "acceptors (handle_accept e h i s) = acceptors s"
    and "sessions (service_handler_pool (handle_accept e h i s))
           = sessions (service_handler_pool s)"
    and "free_list (service_handler_pool (handle_accept e h i s))
           = free_list (service_handler_pool s)"
    and "in_use (service_handler_pool (handle_accept e h i s)) = in_use (service_handler_pool s)"
    by (simp_all add: ha handler_close_def Let_def)
  assume c: "sessions (service_handler_pool s) h \<noteq> None
               \<and> h \<notin> set (closing (service_handler_pool s))"
  then show "queue (work_service_pool (handle_accept e h i s))
               = queue (work_service_pool s) @ [work_on_close (service_handler_pool s)]"
    and cl: "closing (service_handler_pool (handle_accept e h i s))
               = closing (service_handler_pool s) @ [h]"
    by (simp_all add: ha handler_close_def Let_def pool_post_def)
  assume r: "running (work_service_pool s)"
  with c have "running (work_service_pool (handle_accept e h i s))"
    by (simp add: ha handler_close_def Let_def pool_post_def)
  then have st: "service_handler_pool (work_pool_stop False (handle_accept e h i s))
                   = fold put_service_handler
                       (closing (service_handler_pool (handle_accept e h i s)))
                       (service_handler_pool (handle_accept e h i s))"
    by (simp add: work_pool_stop_def finish_closing_def split_def Let_def)
  show "sessions (service_handler_pool (work_pool_stop False (handle_accept e h i s))) h = None"
    and "h \<in> set (free_list (service_handler_pool
                               (work_pool_stop False (handle_accept e h i s))))"
    by (simp_all only: st fold_put_service_handler) (simp_all add: cl)
next
  assume "e = 0 \<and> i < length (acceptors s)"
  then show "\<exists>h'. trace (handle_accept e h i s)
                     = trace s @ [Handler_start h, Acceptor_async_accept i h']
                  \<and> acc_pending (acceptors (handle_accept e h i s) ! i)
                      = acc_pending (acceptors s ! i) @ [h']"
    by (auto simp add: handle_accept_def Let_def accept_one_def handler_start_def
          split: prod.splits)
qed

theorem handle_accept_cases_witness:
  "(5 :: error_code) \<noteq> 0
   \<and> sessions (service_handler_pool example_running) 0 \<noteq> None
   \<and> 0 \<notin> set (closing (service_handler_pool example_running))
   \<and> running (work_service_pool example_running)
   \<and> trace (handle_accept 5 0 0 example_running) = trace example_running @ [Handler_close 0 5]
   \<and> acceptors (handle_accept 5 0 0 example_running) = acceptors example_running
   \<and> sessions (service_handler_pool (handle_accept 5 0 0 example_running)) 0 \<noteq> None
   \<and> free_list (service_handler_pool (handle_accept 5 0 0 example_running)) = []
   \<and> in_use (service_handler_pool (handle_accept 5 0 0 example_running)) = 2
   \<and> queue (work_service_pool (handle_accept 5 0 0 example_running)) = [Task []]
   \<and> closing (service_handler_pool (handle_accept 5 0 0 example_running)) = [0]
   \<and> sessions (service_handler_pool
                 (work_pool_stop False (handle_accept 5 0 0 example_running))) 0 = None
   \<and> 0 \<in> set (free_list (service_handler_pool
                            (work_pool_stop False (handle_accept 5 0 0 example_running))))
   \<and> (0 :: nat) < length (acceptors example_running)
   \<and> (\<exists>h'. trace (handle_accept 0 0 0 example_running)
               = trace example_running @ [Handler_start 0, Acceptor_async_accept 0 h']
            \<and> acc_pending (acceptors (handle_accept 0 0 0 example_running) ! 0) = [0, h'])"
  using handle_accept_cases [of 5 0 0 example_running]
        handle_accept_cases [of 0 0 0 example_running]
  by (simp add: example_running_eq)

text \<open>C5. \<^verbatim>\<open>accept_one\<close> checks a handler out of the handler pool, bound to the i/o loop the
  round-robin cursor of the i/o pool points at (the cursor then advances with wrap) and to
  the work loop that the load-aware selection returns for the pool's in-use count as it is
  before the checkout; both loops exist; it then arms an accept with that handler on the
  acceptor. The pools have at least one loop and the thread load is positive.\<close>

theorem accept_one_checks_out_and_arms:
  "i < length (acceptors s) \<Longrightarrow> 0 < pool_size (io_service_pool s) \<Longrightarrow>
   0 < pool_size (work_service_pool s) \<Longrightarrow> 0 < thread_load (work_service_pool s) \<Longrightarrow>
     (let load = get_load (service_handler_pool s);
          io = fst (get_io_service (io_service_pool s));
          wk = fst (get_io_service_load (work_service_pool s) load);
          h = fst (get_service_handler (service_handler_pool s) io wk);
          s' = accept_one i s
      in load = in_use (service_handler_pool s)
         \<and> io = next_io_service (io_service_pool s) mod pool_size (io_service_pool s)
         \<and> io < pool_size (io_service_pool s')
         \<and> wk < pool_size (work_service_pool s')
         \<and> next_io_service (io_service_pool s')
             = (next_io_service (io_service_pool s) + 1) mod pool_size (io_service_pool s)
         \<and> work_service_pool s' = snd (get_io_service_load (work_service_pool s) load)
         \<and> sessions (service_handler_pool s') h
             = Some \<lparr>session_io = io, session_work = wk, session_open = False\<rparr>
         \<and> in_use (service_handler_pool s') = in_use (service_handler_pool s) + 1
         \<and> acc_pending (acceptors s' ! i) = acc_pending (acceptors s ! i) @ [h]
         \<and> trace s' = trace s @ [Acceptor_async_accept i h])"
  by (auto simp add: accept_one_def get_io_service_def get_io_service_load_def get_load_def
        get_service_handler_def Let_def split: prod.splits list.splits)

theorem accept_one_checks_out_and_arms_witness:
  "(0 :: nat) < length (acceptors example_server)
   \<and> 0 < pool_size (io_service_pool example_server)
   \<and> 0 < pool_size (work_service_pool example_server)
   \<and> 0 < thread_load (work_service_pool example_server)
   \<and> sessions (service_handler_pool (accept_one 0 example_server)) 0
       = Some \<lparr>session_io = 0, session_work = 0, session_open = False\<rparr>
   \<and> in_use (service_handler_pool (accept_one 0 example_server)) = 1
   \<and> next_io_service (io_service_pool (accept_one 0 example_server)) = 1
   \<and> acc_pending (acceptors (accept_one 0 example_server) ! 0) = [0]
   \<and> trace (accept_one 0 example_server) = [Acceptor_async_accept 0 0]"
  using accept_one_checks_out_and_arms [of 0 example_server]
  by (simp add: example_server_eq Let_def get_load_def get_io_service_def
        get_io_service_load_def required_size_def get_service_handler_def acceptor_new_def)

subsection \<open>Construction and start-up\<close>

lemma create_acceptors_loops:
  "next_io_service (acceptor_service_pool s) + n \<le> pool_size (acceptor_service_pool s) \<Longrightarrow>
     map acc_io_service (acceptors (create_acceptors n s))
       = map acc_io_service (acceptors s)
         @ [next_io_service (acceptor_service_pool s) ..<
            next_io_service (acceptor_service_pool s) + n]
     \<and> pool_size (acceptor_service_pool (create_acceptors n s))
         = pool_size (acceptor_service_pool s)
     \<and> endpoint (create_acceptors n s) = endpoint s
     \<and> trace (create_acceptors n s) = trace s
     \<and> started (create_acceptors n s) = started s"
proof (induction n arbitrary: s)
  case 0
  then show ?case by simp
next
  case (Suc n)
  let ?p = "acceptor_service_pool s"
  let ?s1 = "s\<lparr>acceptor_service_pool := snd (get_io_service ?p),
               acceptors := acceptors s @ [acceptor_new (fst (get_io_service ?p))]\<rparr>"
  have lt: "next_io_service ?p < pool_size ?p" using Suc.prems by simp
  have step: "create_acceptors (Suc n) s = create_acceptors n ?s1"
    by (simp add: split_def Let_def)
  have fst_eq: "fst (get_io_service ?p) = next_io_service ?p"
    using lt by (simp add: get_io_service_def)
  have size_eq: "pool_size (acceptor_service_pool ?s1) = pool_size ?p"
    by (simp add: get_io_service_def)
  show ?case
  proof (cases n)
    case 0
    then show ?thesis
      using fst_eq size_eq by (simp add: acceptor_new_def split_def)
  next
    case (Suc m)
    then have lt2: "next_io_service ?p + 1 < pool_size ?p" using Suc.prems by simp
    then have nx: "next_io_service (acceptor_service_pool ?s1) = next_io_service ?p + 1"
      by (simp add: get_io_service_def)
    have pre: "next_io_service (acceptor_service_pool ?s1) + n
                 \<le> pool_size (acceptor_service_pool ?s1)"
      using Suc.prems nx size_eq by simp
    have up: "[next_io_service ?p ..< next_io_service ?p + Suc n]
                = next_io_service ?p # [next_io_service ?p + 1 ..< next_io_service ?p + 1 + n]"
      by (simp add: upt_rec)
    show ?thesis
      using Suc.IH [OF pre] nx size_eq fst_eq up
      by (simp only: step) (simp add: acceptor_new_def)
  qed
qed

lemma server_new_acceptors:
  assumes "server_new hwm0 load0 pool_ptr ep io_pool_size w0 wmax wload = Some s"
  shows "map acc_io_service (acceptors s) = [0 ..< io_pool_size]"
    and "pool_size (acceptor_service_pool s) = io_pool_size"
    and "endpoint s = ep" and "trace s = []" and "\<not> started s"
proof -
  obtain hp where hp: "pool_ptr = Some hp"
    using assms by (cases pool_ptr) (simp_all add: server_new_def)
  let ?s0 = "\<lparr>service_handler_pool = hp,
               acceptor_service_pool = io_service_pool_new io_pool_size hwm0 load0,
               io_service_pool = io_service_pool_new io_pool_size hwm0 load0,
               work_service_pool = io_service_pool_new w0 wmax wload,
               acceptors = [], endpoint = ep, started = False, trace = []\<rparr>"
  have s: "s = (create_acceptors io_pool_size ?s0)
               \<lparr>service_handler_pool := pool_init (service_handler_pool (create_acceptors io_pool_size ?s0))\<rparr>"
    using assms hp by (simp add: server_new_def Let_def)
  have "next_io_service (acceptor_service_pool ?s0) + io_pool_size
          \<le> pool_size (acceptor_service_pool ?s0)"
    by (simp add: io_service_pool_new_def)
  from create_acceptors_loops [OF this]
  show "map acc_io_service (acceptors s) = [0 ..< io_pool_size]"
    and "pool_size (acceptor_service_pool s) = io_pool_size"
    and "endpoint s = ep" and "trace s = []" and "\<not> started s"
    by (simp_all add: s io_service_pool_new_def)
qed

lemma open_acceptor_ok:
  assumes "\<forall>op. os i op = 0"
  shows "\<exists>h s'. open_acceptor os i s = Inr s'
           \<and> trace s' = trace s @ opening_calls (endpoint s) (i, h)
           \<and> endpoint s' = endpoint s
           \<and> length (acceptors s') = length (acceptors s)"
  using assms
  by (simp add: open_acceptor_def and_then_def acceptor_call_def Let_def accept_one_def
        opening_calls_def split: prod.splits)

lemma open_acceptors_ok:
  assumes "\<forall>i \<in> set is. \<forall>op. os i op = 0"
  shows "\<exists>hs s'. open_acceptors os is s = Inr s'
           \<and> length hs = length is
           \<and> trace s' = trace s @ concat (map (opening_calls (endpoint s)) (zip is hs))
           \<and> endpoint s' = endpoint s
           \<and> length (acceptors s') = length (acceptors s)"
  using assms
proof (induction "is" arbitrary: s)
  case Nil
  then show ?case by simp
next
  case (Cons i "is")
  from Cons.prems have "\<forall>op. os i op = 0" by simp
  then obtain h s1 where s1: "open_acceptor os i s = Inr s1"
      "trace s1 = trace s @ opening_calls (endpoint s) (i, h)"
      "endpoint s1 = endpoint s" "length (acceptors s1) = length (acceptors s)"
    using open_acceptor_ok [of os i s] by blast
  from Cons.prems have "\<forall>i \<in> set is. \<forall>op. os i op = 0" by simp
  from Cons.IH [OF this, of s1]
  obtain hs s2 where s2: "open_acceptors os is s1 = Inr s2" "length hs = length is"
      "trace s2 = trace s1 @ concat (map (opening_calls (endpoint s1)) (zip is hs))"
      "endpoint s2 = endpoint s1" "length (acceptors s2) = length (acceptors s1)"
    by blast
  have "open_acceptors os (i # is) s = Inr s2"
    using s1(1) s2(1) by (simp add: and_then_def)
  moreover have "length (h # hs) = length (i # is)" using s2(2) by simp
  moreover have "trace s2 = trace s @ concat (map (opening_calls (endpoint s)) (zip (i # is) (h # hs)))"
    using s1 s2 by simp
  moreover have "endpoint s2 = endpoint s" "length (acceptors s2) = length (acceptors s)"
    using s1 s2 by simp_all
  ultimately show ?case by blast
qed

text \<open>C6. The constructor creates \<^verbatim>\<open>io_pool_size\<close> acceptors, the \<open>k\<close>-th on loop \<open>k\<close> of the
  acceptor pool, which has that many loops. \<^verbatim>\<open>run\<close>, when the platform refuses none of the
  calls, makes for each acceptor in turn \<^verbatim>\<open>open\<close> with the protocol of the endpoint,
  \<^verbatim>\<open>set_option(reuse_address(true))\<close>, \<^verbatim>\<open>bind\<close> to the endpoint, \<^verbatim>\<open>listen\<close> and one
  \<^verbatim>\<open>async_accept\<close>, and only then starts the work pool and the i/o pool.\<close>

theorem one_acceptor_per_loop_opened_before_pools:
  assumes "server_new hwm0 load0 pool_ptr ep io_pool_size w0 wmax wload = Some s"
    and "\<forall>i op. os i op = 0"
  shows "length (acceptors s) = io_pool_size
         \<and> map acc_io_service (acceptors s) = [0 ..< io_pool_size]
         \<and> pool_size (acceptor_service_pool s) = io_pool_size
         \<and> (\<exists>hs s'. run_startup os s = Inr s'
               \<and> length hs = io_pool_size
               \<and> trace s' = concat (map (opening_calls ep) (zip [0 ..< io_pool_size] hs))
                              @ [Pool_start Work_pool, Pool_start Io_pool])"
proof -
  note n = server_new_acceptors [OF assms(1)]
  have len: "length (acceptors s) = io_pool_size"
    using n(1) by (metis length_map length_upt diff_zero)
  have "\<forall>i \<in> set [0 ..< length (acceptors s)]. \<forall>op. os i op = 0"
    using assms(2) by simp
  from open_acceptors_ok [OF this, of s]
  obtain hs s1 where s1: "open_acceptors os [0 ..< length (acceptors s)] s = Inr s1"
      "length hs = length [0 ..< length (acceptors s)]"
      "trace s1 = trace s @ concat (map (opening_calls (endpoint s)) (zip [0 ..< length (acceptors s)] hs))"
    by blast
  have "run_startup os s = Inr ((io_pool_start (work_pool_start s1))\<lparr>started := True\<rparr>)"
    using s1(1) by (simp add: run_startup_def and_then_def)
  moreover have "trace ((io_pool_start (work_pool_start s1))\<lparr>started := True\<rparr>)
           = concat (map (opening_calls ep) (zip [0 ..< io_pool_size] hs))
             @ [Pool_start Work_pool, Pool_start Io_pool]"
    using s1(3) n len by (simp add: io_pool_start_def work_pool_start_def)
  moreover have "length hs = io_pool_size" using s1(2) len by simp
  ultimately show ?thesis using n len by blast
qed

theorem one_acceptor_per_loop_opened_before_pools_witness:
  "server_new 16 100 (Some example_pool) example_endpoint 2 2 4 10 = Some example_server
   \<and> (\<forall>i op. no_refusal i op = 0)
   \<and> length (acceptors example_server) = 2
   \<and> map acc_io_service (acceptors example_server) = [0 ..< 2]
   \<and> pool_size (acceptor_service_pool example_server) = 2
   \<and> (\<exists>hs s'. run_startup no_refusal example_server = Inr s'
         \<and> length hs = 2
         \<and> trace s' = concat (map (opening_calls example_endpoint) (zip [0 ..< 2] hs))
                        @ [Pool_start Work_pool, Pool_start Io_pool])"
proof -
  have a: "server_new 16 100 (Some example_pool) example_endpoint 2 2 4 10 = Some example_server"
    by (simp add: example_server_def server_new_def Let_def)
  have b: "\<forall>i op. no_refusal i op = 0"
    by (simp add: no_refusal_def)
  show ?thesis
    using a b one_acceptor_per_loop_opened_before_pools [OF a b] by blast
qed

subsection \<open>Shutting down\<close>








section \<open>Properties of the proxy pair\<close>

subsection \<open>The order of the steps in on\_close\<close>

lemmas ev_defs = event1_def event2_def

lemmas sw_defs = sw_callback_def sw_on_open_def sw_on_read_def sw_on_write_def
  sw_on_close_def sw_on_parent_def sw_on_child_def

lemmas cw_defs = cw_callback_def cw_on_open_def cw_on_read_def cw_on_write_def
  cw_on_close_def cw_on_parent_def cw_on_child_def

text \<open>C3, as stated: in both \<^verbatim>\<open>on_close\<close> the peer pointer is nulled before the close-event
  is posted. It fails for both work objects: with the pointer set, no step before the post
  nulls the pointer.\<close>

theorem close_event_posted_before_pointer_nulled:
  "\<not> clears_before_signalling (steps_of (sw_on_close \<lparr>child_handler = Some child_id\<rparr> 0))
   \<and> \<not> clears_before_signalling (steps_of (cw_on_close \<lparr>parent_handler = Some parent_id\<rparr> 0))"
  by (simp add: clears_before_signalling_def steps_of_def sw_on_close_def cw_on_close_def
        event1_def report_def)

text \<open>C3, amended: in both \<^verbatim>\<open>on_close\<close>, when the peer pointer is set, the first step posts
  the close-event to the peer the pointer names, the step right after it nulls the pointer,
  and the pointer is null when \<^verbatim>\<open>on_close\<close> returns.\<close>

theorem on_close_signals_then_clears:
  "(child_handler w = Some c \<longrightarrow>
      signals_then_clears (steps_of (sw_on_close w e))
      \<and> hd (steps_of (sw_on_close w e)) = Post_parent c (event1 parent_close)
      \<and> (\<exists>steps. sw_on_close w e = Inr (w\<lparr>child_handler := None\<rparr>, steps)))
   \<and> (parent_handler v = Some p \<longrightarrow>
      signals_then_clears (steps_of (cw_on_close v e))
      \<and> hd (steps_of (cw_on_close v e)) = Post_child p (event1 child_close)
      \<and> (\<exists>steps. cw_on_close v e = Inr (v\<lparr>parent_handler := None\<rparr>, steps)))"
  by (simp add: signals_then_clears_def steps_of_def sw_on_close_def cw_on_close_def event1_def)

theorem on_close_signals_then_clears_witness:
  "child_handler \<lparr>child_handler = Some child_id\<rparr> = Some child_id
   \<and> signals_then_clears (steps_of (sw_on_close \<lparr>child_handler = Some child_id\<rparr> 0))
   \<and> hd (steps_of (sw_on_close \<lparr>child_handler = Some child_id\<rparr> 0))
       = Post_parent child_id (event1 parent_close)
   \<and> parent_handler \<lparr>parent_handler = Some parent_id\<rparr> = Some parent_id
   \<and> signals_then_clears (steps_of (cw_on_close \<lparr>parent_handler = Some parent_id\<rparr> 0))
   \<and> hd (steps_of (cw_on_close \<lparr>parent_handler = Some parent_id\<rparr> 0))
       = Post_child parent_id (event1 child_close)"
  using on_close_signals_then_clears
          [of "\<lparr>child_handler = Some child_id\<rparr>" child_id 0
              "\<lparr>parent_handler = Some parent_id\<rparr>" parent_id]
  by simp

subsection \<open>One baton\<close>

lemma ids_distinct [simp]: "parent_id \<noteq> child_id" "child_id \<noteq> parent_id"
  by (simp_all add: parent_id_def child_id_def)

lemma upd_simps [simp]:
  "store (upd x f s) y = (if y = x then f (store s x) else store s y)"
  "crashed (upd x f s) = crashed s"
  "parent_work (upd x f s) = parent_work s"
  "child_work (upd x f s) = child_work s"
  by (simp_all add: upd_def)

lemma tokens_post:
  "tokens (store (post x cb s) y) = tokens (store s y) + (if y = x then cb_token cb else 0)"
  by (simp add: post_def tokens_def)

lemma tokens_shutdown:
  "tokens (store (handler_shutdown x e s) y) \<le> tokens (store s y)"
  by (simp add: handler_shutdown_def tokens_def)

lemma tokens_arm_read:
  "tokens (store (arm_read x s) y) \<le> tokens (store s y) + (if y = x then 1 else 0)"
  by (simp add: arm_read_def tokens_def)

lemma tokens_arm_write:
  "tokens (store (arm_write x src n s) y) \<le> tokens (store s y) + (if y = x then 1 else 0)"
  by (simp add: arm_write_def tokens_def)

lemma pair_tokens_post:
  "pair_tokens (post x cb s) \<le> pair_tokens s + cb_token cb"
  by (simp add: pair_tokens_def tokens_post)

lemma pair_tokens_shutdown:
  "pair_tokens (handler_shutdown x e s) \<le> pair_tokens s"
  unfolding pair_tokens_def
  using tokens_shutdown [of x e s parent_id] tokens_shutdown [of x e s child_id] by linarith

lemma pair_tokens_arm_read:
  "pair_tokens (arm_read x s) \<le> pair_tokens s + 1"
  unfolding pair_tokens_def
  using tokens_arm_read [of x s parent_id] tokens_arm_read [of x s child_id]
  by (cases "x = parent_id"; cases "x = child_id"; simp)

lemma pair_tokens_arm_write:
  "pair_tokens (arm_write x src n s) \<le> pair_tokens s + 1"
  unfolding pair_tokens_def
  using tokens_arm_write [of x src n s parent_id] tokens_arm_write [of x src n s child_id]
  by (cases "x = parent_id"; cases "x = child_id"; simp)

lemma pair_tokens_exec:
  "pair_tokens (exec x st s) \<le> pair_tokens s + step_token st"
proof (cases st)
  case (Post_parent t ev)
  then show ?thesis using pair_tokens_post [of t "Cb_parent ev" s] by simp
next
  case (Post_child t ev)
  then show ?thesis using pair_tokens_post [of t "Cb_child ev" s] by simp
next
  case Async_read_some
  then show ?thesis using pair_tokens_arm_read [of x s] by simp
next
  case (Async_write src n)
  then show ?thesis using pair_tokens_arm_write [of x src n s] by simp
next
  case Close
  then show ?thesis using pair_tokens_shutdown [of x 0 s] by simp
qed simp_all

lemma pair_tokens_fold:
  "pair_tokens (fold (exec x) steps s) \<le> pair_tokens s + sum_list (map step_token steps)"
proof (induction steps arbitrary: s)
  case Nil
  then show ?case by simp
next
  case (Cons st steps)
  have "pair_tokens (fold (exec x) steps (exec x st s))
          \<le> pair_tokens (exec x st s) + sum_list (map step_token steps)"
    by (rule Cons.IH)
  also have "\<dots> \<le> pair_tokens s + step_token st + sum_list (map step_token steps)"
    using pair_tokens_exec [of x st s] by simp
  finally show ?case by simp
qed

lemma report_tokens [simp]: "sum_list (map step_token (report who tail e)) = 0"
  by (simp add: report_def)

lemma report_step_token [simp]: "st \<in> set (report who tail e) \<Longrightarrow> step_token st = 0"
  by (auto simp add: report_def split: if_splits)

lemma sw_callback_tokens:
  "sw_callback w cb = Inr (w', steps) \<Longrightarrow> sum_list (map step_token steps) \<le> cb_token cb"
  by (cases cb)
     (auto simp add: sw_callback_def sw_on_open_def sw_on_read_def sw_on_write_def
        sw_on_close_def sw_on_parent_def sw_on_child_def event1_def event2_def
        split: option.splits event_state.splits)

lemma cw_callback_tokens:
  "cw_callback w cb = Inr (w', steps) \<Longrightarrow> sum_list (map step_token steps) \<le> cb_token cb"
  by (cases cb)
     (auto simp add: cw_callback_def cw_on_open_def cw_on_read_def cw_on_write_def
        cw_on_close_def cw_on_parent_def cw_on_child_def event1_def event2_def
        split: option.splits event_state.splits)

lemma returned_simps [simp]:
  "tokens (store (returned x cb s) y) = tokens (store s y)"
  "crashed (returned x cb s) = crashed s"
  by (cases cb; simp add: returned_def tokens_def)+

lemma pair_tokens_returned [simp]: "pair_tokens (returned x cb s) = pair_tokens s"
  by (simp add: pair_tokens_def)

lemma pair_tokens_work [simp]:
  "pair_tokens (s\<lparr>parent_work := w\<rparr>) = pair_tokens s"
  "pair_tokens (s\<lparr>child_work := v\<rparr>) = pair_tokens s"
  "pair_tokens (s\<lparr>crashed := c\<rparr>) = pair_tokens s"
  by (simp_all add: pair_tokens_def)

lemma pair_tokens_pop:
  assumes "work_queue (store s x) = cb # q"
  shows "pair_tokens (upd x (\<lambda>h. h\<lparr>work_queue := q\<rparr>) s)
           + (if x = parent_id \<or> x = child_id then cb_token cb else 0) = pair_tokens s"
  using assms by (auto simp add: pair_tokens_def tokens_def)

lemma pair_tokens_deliver: "pair_tokens (deliver x s) \<le> pair_tokens s"
proof (cases "work_queue (store s x)")
  case Nil
  then show ?thesis by (simp add: deliver_def)
next
  case (Cons cb q)
  let ?s1 = "upd x (\<lambda>h. h\<lparr>work_queue := q\<rparr>) s"
  note pop = pair_tokens_pop [OF Cons]
  show ?thesis
  proof (cases "0 < on_close_runs (store s x)")
    case True
    then show ?thesis using Cons pop by (simp add: deliver_def)
  next
    case open_: False
    show ?thesis
    proof (cases "x = parent_id")
      case True
      show ?thesis
      proof (cases "sw_callback (parent_work s) cb")
        case (Inl f)
        then show ?thesis using Cons open_ True pop by (simp add: deliver_def)
      next
        case (Inr r)
        obtain w steps where r: "r = (w, steps)" by (cases r)
        have "pair_tokens (fold (exec x) steps (?s1\<lparr>parent_work := w\<rparr>))
                \<le> pair_tokens (?s1\<lparr>parent_work := w\<rparr>) + sum_list (map step_token steps)"
          by (rule pair_tokens_fold)
        also have "\<dots> \<le> pair_tokens ?s1 + cb_token cb"
          using sw_callback_tokens [of "parent_work s" cb w steps] Inr r by simp
        also have "\<dots> = pair_tokens s" using pop True by simp
        finally show ?thesis using Cons open_ True Inr r by (simp add: deliver_def)
      qed
    next
      case notp: False
      show ?thesis
      proof (cases "x = child_id")
        case True
        show ?thesis
        proof (cases "cw_callback (child_work s) cb")
          case (Inl f)
          then show ?thesis using Cons open_ True notp pop by (simp add: deliver_def)
        next
          case (Inr r)
          obtain w steps where r: "r = (w, steps)" by (cases r)
          have "pair_tokens (fold (exec x) steps (?s1\<lparr>child_work := w\<rparr>))
                  \<le> pair_tokens (?s1\<lparr>child_work := w\<rparr>) + sum_list (map step_token steps)"
            by (rule pair_tokens_fold)
          also have "\<dots> \<le> pair_tokens ?s1 + cb_token cb"
            using cw_callback_tokens [of "child_work s" cb w steps] Inr r by simp
          also have "\<dots> = pair_tokens s" using pop True by simp
          finally show ?thesis using Cons open_ True notp Inr r by (simp add: deliver_def)
        qed
      next
        case False
        then show ?thesis using Cons open_ notp pop by (simp add: deliver_def)
      qed
    qed
  qed
qed

lemma pair_tokens_read_completes: "pair_tokens (read_completes x data s) \<le> pair_tokens s"
  by (auto simp add: read_completes_def pair_tokens_def tokens_def)

lemma pair_tokens_write_completes: "pair_tokens (write_completes x s) \<le> pair_tokens s"
  by (auto simp add: write_completes_def pair_tokens_def tokens_def split: list.splits)

lemma pair_tokens_step: "pair_tokens (pair_step ev s) \<le> pair_tokens s"
  by (cases ev)
     (simp_all add: pair_step_def pair_tokens_deliver pair_tokens_read_completes
        pair_tokens_write_completes pair_tokens_shutdown read_fails_def write_fails_def)

lemma pair_tokens_run: "pair_tokens (pair_run evs s) \<le> pair_tokens s"
  unfolding pair_run_def
proof (induction evs arbitrary: s)
  case Nil
  then show ?case by simp
next
  case (Cons ev evs)
  have "pair_tokens (fold pair_step evs (pair_step ev s)) \<le> pair_tokens (pair_step ev s)"
    by (rule Cons.IH)
  also have "\<dots> \<le> pair_tokens s" by (rule pair_tokens_step)
  finally show ?case by simp
qed

lemma pair_tokens_wired: "pair_tokens (wired pb cb) = 1"
  by (simp add: wired_def pair_tokens_def tokens_def handler_new_def)

lemma list_ex_token:
  "list_ex P q \<Longrightarrow> (\<And>cb. P cb \<Longrightarrow> cb_token cb = 1) \<Longrightarrow> 1 \<le> sum_list (map cb_token q)"
  by (induction q) auto

lemma busy_tokens:
  assumes "parent_buffer_busy s"
  shows "reads_armed (store s parent_id) + 1 \<le> pair_tokens s"
proof -
  have r: "\<And>cb. is_on_read cb \<Longrightarrow> cb_token cb = 1"
    by (case_tac cb) simp_all
  have w: "\<And>cb. is_parent_write cb \<Longrightarrow> cb_token cb = 1"
    by (case_tac cb) simp_all
  have l: "\<And>ws. list_ex (\<lambda>w. fst w = parent_id) ws \<Longrightarrow> 1 \<le> length ws"
    by (case_tac ws) simp_all
  from assms consider
      "list_ex is_on_read (work_queue (store s parent_id))"
    | "list_ex is_parent_write (work_queue (store s child_id))"
    | "list_ex (\<lambda>w. fst w = parent_id) (writes_armed (store s child_id))"
    unfolding parent_buffer_busy_def by blast
  then show ?thesis
  proof cases
    case 1
    from list_ex_token [OF this r] show ?thesis by (simp add: pair_tokens_def tokens_def)
  next
    case 2
    from list_ex_token [OF this w] show ?thesis by (simp add: pair_tokens_def tokens_def)
  next
    case 3
    from l [OF this] show ?thesis by (simp add: pair_tokens_def tokens_def)
  qed
qed

lemma read_armed_only_on_write_or_child_open:
  "Async_read_some \<in> set (steps_of (sw_callback w c)) \<Longrightarrow>
     (\<exists>n. c = Cb_write n) \<or> (\<exists>ev. c = Cb_child ev \<and> ev_state ev = child_open)"
  by (cases c)
     (auto simp add: steps_of_def sw_defs ev_defs report_def split: option.splits event_state.splits if_splits)

lemmas frame_defs = post_def arm_read_def arm_write_def handler_shutdown_def returned_def

lemmas pair_eval = pair_run_def pair_step_def deliver_def Let_def sw_defs cw_defs ev_defs frame_defs
  read_completes_def read_fails_def write_completes_def write_fails_def wired_def
  handler_new_def sw_on_set_child_def cw_on_set_parent_def server_work_new_def
  client_work_new_def timed_out_def report_def example_pair_def

lemma request_read_eval:
  "store (pair_run (request_read @ [Deliver parent_id]) example_pair) parent_id =
     \<lparr>work_queue = [], stopped = False, on_close_runs = 0, reads_armed = 0, writes_armed = [],
      read_buffer = [1, 2, 3, 0], sent = []\<rparr>"
  "store (pair_run (request_read @ [Deliver parent_id]) example_pair) child_id =
     \<lparr>work_queue = [Cb_parent (event2 parent_write 3)], stopped = False, on_close_runs = 0,
      reads_armed = 0, writes_armed = [], read_buffer = [0, 0, 0, 0], sent = []\<rparr>"
  "crashed (pair_run (request_read @ [Deliver parent_id]) example_pair) = None"
  "child_work (pair_run (request_read @ [Deliver parent_id]) example_pair)
     = \<lparr>parent_handler = Some parent_id\<rparr>"
  by (simp_all add: request_read_def pair_eval)

text \<open>C9. In every state a wired pair can reach, at most one read is armed on the parent,
  and none is armed while the parent's read buffer is still in use: while the parent's
  \<^verbatim>\<open>on_read\<close> for it is queued, while the \<^verbatim>\<open>parent_write\<close> is queued at the child, and while
  the child's write from that buffer is outstanding. The only callbacks of the parent's work
  object that arm a read are \<^verbatim>\<open>on_write\<close> and \<^verbatim>\<open>on_child\<close> for \<^verbatim>\<open>child_open\<close>.\<close>

theorem parent_read_waits_for_child:
  "reads_armed (store (pair_run evs (wired pb cb)) parent_id) \<le> 1
   \<and> (parent_buffer_busy (pair_run evs (wired pb cb)) \<longrightarrow>
        reads_armed (store (pair_run evs (wired pb cb)) parent_id) = 0)
   \<and> (Async_read_some \<in> set (steps_of (sw_callback w c)) \<longrightarrow>
        (\<exists>n. c = Cb_write n) \<or> (\<exists>ev. c = Cb_child ev \<and> ev_state ev = child_open))"
proof -
  let ?s = "pair_run evs (wired pb cb)"
  have t: "pair_tokens ?s \<le> 1"
    using pair_tokens_run [of evs "wired pb cb"] by (simp add: pair_tokens_wired)
  have "reads_armed (store ?s parent_id) \<le> pair_tokens ?s"
    by (simp add: pair_tokens_def tokens_def)
  with t have a: "reads_armed (store ?s parent_id) \<le> 1" by simp
  have "parent_buffer_busy ?s \<longrightarrow> reads_armed (store ?s parent_id) = 0"
    using busy_tokens [of ?s] t by auto
  with a show ?thesis
    using read_armed_only_on_write_or_child_open [of w c] by blast
qed

theorem parent_read_waits_for_child_witness:
  "parent_buffer_busy (pair_run request_read example_pair)
   \<and> reads_armed (store (pair_run request_read example_pair) parent_id) = 0
   \<and> parent_buffer_busy (pair_run (request_read @ [Deliver parent_id]) example_pair)
   \<and> reads_armed (store (pair_run (request_read @ [Deliver parent_id]) example_pair) parent_id) = 0
   \<and> Async_read_some \<in> set (steps_of (sw_callback server_work_new (Cb_write 3)))"
proof -
  have a: "parent_buffer_busy (pair_run request_read example_pair)"
    by (simp add: parent_buffer_busy_def request_read_def pair_eval)
  have b: "parent_buffer_busy (pair_run (request_read @ [Deliver parent_id]) example_pair)"
    by (simp add: parent_buffer_busy_def request_read_eval event2_def)
  have c: "Async_read_some \<in> set (steps_of (sw_callback server_work_new (Cb_write 3)))"
    by (simp add: steps_of_def sw_defs ev_defs)
  show ?thesis
    using a b c
      parent_read_waits_for_child
        [of request_read "[0, 0, 0, 0]" "[0, 0, 0, 0]" server_work_new "Cb_write 3"]
      parent_read_waits_for_child
        [of "request_read @ [Deliver parent_id]" "[0, 0, 0, 0]" "[0, 0, 0, 0]" server_work_new
            "Cb_write 3"]
    by (simp add: example_pair_def)
qed

subsection \<open>Closing in pairs\<close>

lemma list_ex_append_not [simp]: "\<not> P cb \<Longrightarrow> list_ex P (q @ [cb]) = list_ex P q"
  by (induction q) auto

lemma closes_parent_eq: "closes_parent = (\<lambda>cb. is_on_close cb \<or> is_child_close cb)"
proof
  fix cb show "closes_parent cb = (is_on_close cb \<or> is_child_close cb)" by (cases cb) simp_all
qed

lemma closes_child_eq: "closes_child = (\<lambda>cb. is_on_close cb \<or> is_parent_close cb)"
proof
  fix cb show "closes_child cb = (is_on_close cb \<or> is_parent_close cb)" by (cases cb) simp_all
qed

lemma list_ex_or: "list_ex (\<lambda>x. P x \<or> Q x) q = (list_ex P q \<or> list_ex Q q)"
  by (induction q) auto

lemma close_pending_simps:
  "close_pending parent_id s =
     (list_ex is_on_close (work_queue (store s parent_id))
      \<or> list_ex is_child_close (work_queue (store s parent_id)))"
  "close_pending child_id s =
     (list_ex is_on_close (work_queue (store s child_id))
      \<or> list_ex is_parent_close (work_queue (store s child_id)))"
  by (simp_all add: close_pending_def closes_parent_eq closes_child_eq list_ex_or)

lemma inv_wired: "pair_inv (wired pb cb)"
  by (simp add: pair_inv_def wired_def handler_new_def sw_on_set_child_def cw_on_set_parent_def
        server_work_new_def client_work_new_def)

lemma inv_read_completes: "pair_inv s \<Longrightarrow> pair_inv (read_completes x data s)"
  by (auto simp add: pair_inv_def close_pending_simps read_completes_def)

lemma inv_write_completes: "pair_inv s \<Longrightarrow> pair_inv (write_completes x s)"
  by (auto simp add: pair_inv_def close_pending_simps write_completes_def split: list.splits)

lemma exec_report [simp]: "fold (exec x) (report who tail e) s = s"
  by (simp add: report_def)

lemma inv_crash [simp]: "pair_inv (s\<lparr>crashed := c\<rparr>) = pair_inv s"
  by (simp add: pair_inv_def close_pending_simps)

lemma inv_arm_read [simp]: "pair_inv (arm_read x s) = pair_inv s"
  by (simp add: pair_inv_def close_pending_simps arm_read_def)

lemma inv_arm_write [simp]: "pair_inv (arm_write x src n s) = pair_inv s"
  by (simp add: pair_inv_def close_pending_simps arm_write_def)

lemma inv_post_neutral:
  "\<not> is_on_close cb \<Longrightarrow> \<not> is_child_close cb \<Longrightarrow> \<not> is_parent_close cb \<Longrightarrow>
     pair_inv (post x cb s) = pair_inv s"
  by (simp add: pair_inv_def close_pending_simps post_def)

lemma inv_pop_parent:
  "work_queue (store s parent_id) = cb # q \<Longrightarrow> \<not> is_on_close cb \<Longrightarrow> \<not> is_child_close cb \<Longrightarrow>
     pair_inv (upd parent_id (\<lambda>h. h\<lparr>work_queue := q\<rparr>) s) = pair_inv s"
  by (simp add: pair_inv_def close_pending_simps)

lemma inv_pop_child:
  "work_queue (store s child_id) = cb # q \<Longrightarrow> \<not> is_on_close cb \<Longrightarrow> \<not> is_parent_close cb \<Longrightarrow>
     pair_inv (upd child_id (\<lambda>h. h\<lparr>work_queue := q\<rparr>) s) = pair_inv s"
  by (simp add: pair_inv_def close_pending_simps)

lemma inv_upd_other:
  assumes "x \<noteq> parent_id" "x \<noteq> child_id"
  shows "pair_inv (upd x f s) = pair_inv s"
  using assms by (simp add: pair_inv_def close_pending_simps)

lemma inv_pop_dropped_parent:
  assumes "pair_inv s" "work_queue (store s parent_id) = cb # q" "0 < on_close_runs (store s parent_id)"
  shows "pair_inv (upd parent_id (\<lambda>h. h\<lparr>work_queue := q\<rparr>) s)"
  using assms by (simp add: pair_inv_def close_pending_simps)

lemma inv_pop_dropped_child:
  assumes "pair_inv s" "work_queue (store s child_id) = cb # q" "0 < on_close_runs (store s child_id)"
  shows "pair_inv (upd child_id (\<lambda>h. h\<lparr>work_queue := q\<rparr>) s)"
  using assms by (simp add: pair_inv_def close_pending_simps)

lemma inv_deliver_parent_close:
  assumes inv: "pair_inv s" and q: "work_queue (store s parent_id) = Cb_close e # q"
    and r: "on_close_runs (store s parent_id) = 0"
  shows "pair_inv (deliver parent_id s)"
proof (cases "child_handler (parent_work s)")
  case None
  then have "deliver parent_id s =
      upd parent_id (\<lambda>h. h\<lparr>on_close_runs := on_close_runs h + 1\<rparr>)
        ((upd parent_id (\<lambda>h. h\<lparr>work_queue := q\<rparr>) s)\<lparr>parent_work := parent_work s\<rparr>)"
    using q r by (simp add: deliver_def sw_defs ev_defs returned_def)
  then show ?thesis using inv q r None
    by (simp add: pair_inv_def close_pending_simps)
next
  case (Some c)
  with inv have c: "c = child_id" by (simp add: pair_inv_def)
  have "deliver parent_id s =
      upd parent_id (\<lambda>h. h\<lparr>on_close_runs := on_close_runs h + 1\<rparr>)
        (post child_id (Cb_parent (event1 parent_close))
          ((upd parent_id (\<lambda>h. h\<lparr>work_queue := q\<rparr>) s)
             \<lparr>parent_work := (parent_work s)\<lparr>child_handler := None\<rparr>\<rparr>))"
    using q r Some c by (simp add: deliver_def sw_defs ev_defs returned_def)
  then show ?thesis using inv q r
    by (simp add: pair_inv_def close_pending_simps post_def event1_def)
qed

lemma inv_deliver_parent_child_close:
  assumes inv: "pair_inv s" and q: "work_queue (store s parent_id) = Cb_child ev # q"
    and r: "on_close_runs (store s parent_id) = 0" and ev: "ev_state ev = child_close"
  shows "pair_inv (deliver parent_id s)"
proof -
  have "deliver parent_id s =
      handler_shutdown parent_id 0
        ((upd parent_id (\<lambda>h. h\<lparr>work_queue := q\<rparr>) s)
           \<lparr>parent_work := (parent_work s)\<lparr>child_handler := None\<rparr>\<rparr>)"
    using q r ev by (simp add: deliver_def sw_defs ev_defs returned_def)
  then show ?thesis using inv q r ev
    by (simp add: pair_inv_def close_pending_simps handler_shutdown_def)
qed

lemma inv_work_same [simp]:
  "child_handler w = child_handler (parent_work s) \<Longrightarrow>
     pair_inv (s\<lparr>parent_work := w\<rparr>) = pair_inv s"
  "parent_handler v = parent_handler (child_work s) \<Longrightarrow>
     pair_inv (s\<lparr>child_work := v\<rparr>) = pair_inv s"
  by (simp_all add: pair_inv_def close_pending_simps)

lemma inv_deliver_parent:
  assumes inv: "pair_inv s"
  shows "pair_inv (deliver parent_id s)"
proof (cases "work_queue (store s parent_id)")
  case Nil
  then show ?thesis using inv by (simp add: deliver_def)
next
  case (Cons cb q)
  show ?thesis
  proof (cases "0 < on_close_runs (store s parent_id)")
    case True
    then show ?thesis
      using inv_pop_dropped_parent [OF inv Cons] Cons by (simp add: deliver_def)
  next
    case False
    then have r: "on_close_runs (store s parent_id) = 0" by simp
    show ?thesis
    proof (cases cb)
      case Cb_open
      then show ?thesis
        using inv Cons r inv_pop_parent [of s cb q]
        by (simp add: deliver_def sw_defs ev_defs returned_def)
    next
      case (Cb_read n)
      then show ?thesis
        using inv Cons r inv_pop_parent [of s cb q]
        by (simp add: deliver_def sw_defs ev_defs returned_def inv_post_neutral split: option.splits)
    next
      case (Cb_write n)
      then show ?thesis
        using inv Cons r inv_pop_parent [of s cb q]
        by (simp add: deliver_def sw_defs ev_defs returned_def)
    next
      case (Cb_close e)
      then show ?thesis
        using inv_deliver_parent_close [OF inv _ r] Cons by simp
    next
      case (Cb_parent ev)
      then show ?thesis
        using inv Cons r inv_pop_parent [of s cb q]
        by (simp add: deliver_def sw_defs ev_defs returned_def)
    next
      case (Cb_child ev)
      show ?thesis
      proof (cases "ev_state ev = child_close")
        case True
        then show ?thesis
          using inv_deliver_parent_child_close [OF inv _ r] Cons Cb_child by simp
      next
        case False
        then show ?thesis
          using inv Cons r Cb_child inv_pop_parent [of s cb q]
          by (cases "ev_state ev")
             (simp_all add: deliver_def sw_defs ev_defs returned_def split: option.splits)
      qed
    qed
  qed
qed

lemma inv_deliver_child_close:
  assumes inv: "pair_inv s" and q: "work_queue (store s child_id) = Cb_close e # q"
    and r: "on_close_runs (store s child_id) = 0"
  shows "pair_inv (deliver child_id s)"
proof (cases "parent_handler (child_work s)")
  case None
  then have "deliver child_id s =
      upd child_id (\<lambda>h. h\<lparr>on_close_runs := on_close_runs h + 1\<rparr>)
        ((upd child_id (\<lambda>h. h\<lparr>work_queue := q\<rparr>) s)\<lparr>child_work := child_work s\<rparr>)"
    using q r by (simp add: deliver_def cw_defs ev_defs returned_def)
  then show ?thesis using inv q r None
    by (simp add: pair_inv_def close_pending_simps)
next
  case (Some p)
  with inv have p: "p = parent_id" by (simp add: pair_inv_def)
  have "deliver child_id s =
      upd child_id (\<lambda>h. h\<lparr>on_close_runs := on_close_runs h + 1\<rparr>)
        (post parent_id (Cb_child (event1 child_close))
          ((upd child_id (\<lambda>h. h\<lparr>work_queue := q\<rparr>) s)
             \<lparr>child_work := (child_work s)\<lparr>parent_handler := None\<rparr>\<rparr>))"
    using q r Some p by (simp add: deliver_def cw_defs ev_defs returned_def)
  then show ?thesis using inv q r
    by (simp add: pair_inv_def close_pending_simps post_def event1_def)
qed

lemma inv_deliver_child_parent_close:
  assumes inv: "pair_inv s" and q: "work_queue (store s child_id) = Cb_parent ev # q"
    and r: "on_close_runs (store s child_id) = 0" and ev: "ev_state ev = parent_close"
  shows "pair_inv (deliver child_id s)"
proof -
  have "deliver child_id s =
      handler_shutdown child_id 0
        ((upd child_id (\<lambda>h. h\<lparr>work_queue := q\<rparr>) s)
           \<lparr>child_work := (child_work s)\<lparr>parent_handler := None\<rparr>\<rparr>)"
    using q r ev by (simp add: deliver_def cw_defs ev_defs returned_def)
  then show ?thesis using inv q r ev
    by (simp add: pair_inv_def close_pending_simps handler_shutdown_def)
qed

lemma inv_deliver_child:
  assumes inv: "pair_inv s"
  shows "pair_inv (deliver child_id s)"
proof (cases "work_queue (store s child_id)")
  case Nil
  then show ?thesis using inv by (simp add: deliver_def)
next
  case (Cons cb q)
  show ?thesis
  proof (cases "0 < on_close_runs (store s child_id)")
    case True
    then show ?thesis
      using inv_pop_dropped_child [OF inv Cons] Cons by (simp add: deliver_def)
  next
    case False
    then have r: "on_close_runs (store s child_id) = 0" by simp
    show ?thesis
    proof (cases cb)
      case Cb_open
      then show ?thesis
        using inv Cons r inv_pop_child [of s cb q]
        by (simp add: deliver_def cw_defs ev_defs returned_def inv_post_neutral split: option.splits)
    next
      case (Cb_read n)
      then show ?thesis
        using inv Cons r inv_pop_child [of s cb q]
        by (simp add: deliver_def cw_defs ev_defs returned_def inv_post_neutral split: option.splits)
    next
      case (Cb_write n)
      then show ?thesis
        using inv Cons r inv_pop_child [of s cb q]
        by (simp add: deliver_def cw_defs ev_defs returned_def)
    next
      case (Cb_close e)
      then show ?thesis
        using inv_deliver_child_close [OF inv _ r] Cons by simp
    next
      case (Cb_child ev)
      then show ?thesis
        using inv Cons r inv_pop_child [of s cb q]
        by (simp add: deliver_def cw_defs ev_defs returned_def)
    next
      case (Cb_parent ev)
      show ?thesis
      proof (cases "ev_state ev = parent_close")
        case True
        then show ?thesis
          using inv_deliver_child_parent_close [OF inv _ r] Cons Cb_parent by simp
      next
        case False
        then show ?thesis
          using inv Cons r Cb_parent inv_pop_child [of s cb q]
          by (cases "ev_state ev")
             (simp_all add: deliver_def cw_defs ev_defs returned_def split: option.splits)
      qed
    qed
  qed
qed

lemma inv_deliver: "pair_inv s \<Longrightarrow> pair_inv (deliver x s)"
proof (cases "x = parent_id")
  case True
  assume "pair_inv s" then show ?thesis using True inv_deliver_parent by simp
next
  case notp: False
  assume inv: "pair_inv s"
  show ?thesis
  proof (cases "x = child_id")
    case True
    then show ?thesis using inv inv_deliver_child by simp
  next
    case False
    then show ?thesis
      using inv notp inv_upd_other [of x]
      by (simp add: deliver_def Let_def split: list.splits)
  qed
qed

lemma inv_shutdown: "pair_inv s \<Longrightarrow> pair_inv (handler_shutdown x e s)"
  by (simp add: pair_inv_def close_pending_simps handler_shutdown_def)

lemma inv_step: "pair_inv s \<Longrightarrow> pair_inv (pair_step ev s)"
  by (cases ev)
     (simp_all add: pair_step_def inv_deliver inv_read_completes inv_write_completes
        inv_shutdown read_fails_def write_fails_def)

lemma inv_run: "pair_inv s \<Longrightarrow> pair_inv (pair_run evs s)"
  unfolding pair_run_def
  by (induction evs arbitrary: s) (simp_all add: inv_step)

lemma inv_ptrs:
  assumes "pair_inv s"
  shows "child_handler (parent_work s) = None \<or> child_handler (parent_work s) = Some child_id"
    and "parent_handler (child_work s) = None \<or> parent_handler (child_work s) = Some parent_id"
    and "on_close_runs (store s parent_id) \<le> 1" and "on_close_runs (store s child_id) \<le> 1"
  using assms by (simp_all add: pair_inv_def)

lemma inv_stopped_queued:
  assumes "pair_inv s"
  shows "stopped (store s parent_id) \<Longrightarrow> on_close_runs (store s parent_id) = 0 \<Longrightarrow>
           list_ex is_on_close (work_queue (store s parent_id))"
    and "stopped (store s child_id) \<Longrightarrow> on_close_runs (store s child_id) = 0 \<Longrightarrow>
           list_ex is_on_close (work_queue (store s child_id))"
  using assms by (simp_all add: pair_inv_def)

text \<open>One delivery at the parent whose end is queued: it crashes, or \<open>on_close\<close> runs, or the
  end stays queued and the work left before it shrinks.\<close>

lemma progress_parent:
  assumes inv: "pair_inv s" and r: "on_close_runs (store s parent_id) = 0"
    and pend: "close_pending parent_id s"
  shows "crashed (deliver parent_id s) \<noteq> None
         \<or> 0 < on_close_runs (store (deliver parent_id s) parent_id)
         \<or> (close_pending parent_id (deliver parent_id s)
            \<and> length (work_queue (store (deliver parent_id s) parent_id))
                + (if stopped (store (deliver parent_id s) parent_id) then 0 else 1)
              < length (work_queue (store s parent_id))
                + (if stopped (store s parent_id) then 0 else 1))"
proof (cases "work_queue (store s parent_id)")
  case Nil
  then show ?thesis using pend by (simp add: close_pending_simps)
next
  case (Cons cb q)
  note ptr = inv_ptrs(1) [OF inv]
  note sq = inv_stopped_queued(1) [OF inv]
  show ?thesis
  proof (cases cb)
    case Cb_open
    then show ?thesis using Cons r pend
      by (simp add: deliver_def sw_defs ev_defs frame_defs close_pending_simps)
  next
    case (Cb_read n)
    then show ?thesis using Cons r pend ptr
      by (auto simp add: deliver_def sw_defs ev_defs frame_defs close_pending_simps)
  next
    case (Cb_write n)
    then show ?thesis using Cons r pend
      by (simp add: deliver_def sw_defs ev_defs frame_defs close_pending_simps)
  next
    case (Cb_close e)
    then show ?thesis using Cons r ptr
      by (auto simp add: deliver_def sw_defs ev_defs frame_defs)
  next
    case (Cb_parent ev)
    then show ?thesis using Cons r pend
      by (simp add: deliver_def sw_defs ev_defs frame_defs close_pending_simps)
  next
    case (Cb_child ev)
    then show ?thesis using Cons r pend ptr sq
      by (cases "ev_state ev")
         (auto simp add: deliver_def sw_defs ev_defs frame_defs close_pending_simps)
  qed
qed

lemma progress_child:
  assumes inv: "pair_inv s" and r: "on_close_runs (store s child_id) = 0"
    and pend: "close_pending child_id s"
  shows "crashed (deliver child_id s) \<noteq> None
         \<or> 0 < on_close_runs (store (deliver child_id s) child_id)
         \<or> (close_pending child_id (deliver child_id s)
            \<and> length (work_queue (store (deliver child_id s) child_id))
                + (if stopped (store (deliver child_id s) child_id) then 0 else 1)
              < length (work_queue (store s child_id))
                + (if stopped (store s child_id) then 0 else 1))"
proof (cases "work_queue (store s child_id)")
  case Nil
  then show ?thesis using pend by (simp add: close_pending_simps)
next
  case (Cons cb q)
  note ptr = inv_ptrs(2) [OF inv]
  note sq = inv_stopped_queued(2) [OF inv]
  show ?thesis
  proof (cases cb)
    case Cb_open
    then show ?thesis using Cons r pend ptr
      by (auto simp add: deliver_def cw_defs ev_defs frame_defs close_pending_simps)
  next
    case (Cb_read n)
    then show ?thesis using Cons r pend ptr
      by (auto simp add: deliver_def cw_defs ev_defs frame_defs close_pending_simps)
  next
    case (Cb_write n)
    then show ?thesis using Cons r pend
      by (simp add: deliver_def cw_defs ev_defs frame_defs close_pending_simps)
  next
    case (Cb_close e)
    then show ?thesis using Cons r ptr
      by (auto simp add: deliver_def cw_defs ev_defs frame_defs)
  next
    case (Cb_child ev)
    then show ?thesis using Cons r pend
      by (simp add: deliver_def cw_defs ev_defs frame_defs close_pending_simps)
  next
    case (Cb_parent ev)
    then show ?thesis using Cons r pend ptr sq
      by (cases "ev_state ev")
         (auto simp add: deliver_def cw_defs ev_defs frame_defs close_pending_simps)
  qed
qed

lemma closed_or_crashed_stays:
  assumes "crashed s \<noteq> None \<or> 0 < on_close_runs (store s y)"
  shows "crashed (pair_step (Deliver y) s) \<noteq> None
         \<or> 0 < on_close_runs (store (pair_step (Deliver y) s) y)"
  using assms
  by (auto simp add: pair_step_def deliver_def Let_def split: list.splits)

lemma deliveries_reach_close:
  assumes y: "y = parent_id \<or> y = child_id" and inv: "pair_inv s"
    and "crashed s \<noteq> None \<or> 0 < on_close_runs (store s y)
         \<or> (close_pending y s
            \<and> length (work_queue (store s y)) + (if stopped (store s y) then 0 else 1) \<le> k)"
  shows "crashed ((pair_step (Deliver y) ^^ k) s) \<noteq> None
         \<or> 0 < on_close_runs (store ((pair_step (Deliver y) ^^ k) s) y)"
  using inv assms(3)
proof (induction k arbitrary: s)
  case 0
  then show ?case by (auto simp add: close_pending_def split: if_splits)
next
  case (Suc k)
  let ?s1 = "pair_step (Deliver y) s"
  have inv1: "pair_inv ?s1" using Suc.prems(1) by (rule inv_step)
  have "crashed ?s1 \<noteq> None \<or> 0 < on_close_runs (store ?s1 y)
         \<or> (close_pending y ?s1
            \<and> length (work_queue (store ?s1 y)) + (if stopped (store ?s1 y) then 0 else 1) \<le> k)"
  proof (cases "crashed s \<noteq> None \<or> 0 < on_close_runs (store s y)")
    case True
    then show ?thesis using closed_or_crashed_stays [of s y] by blast
  next
    case False
    then have c: "crashed s = None" and r: "on_close_runs (store s y) = 0" by simp_all
    with Suc.prems(2) have pend: "close_pending y s"
      and m: "length (work_queue (store s y)) + (if stopped (store s y) then 0 else 1) \<le> Suc k"
      by simp_all
    have step: "?s1 = deliver y s" using c by (simp add: pair_step_def)
    from y show ?thesis
    proof
      assume "y = parent_id"
      then show ?thesis
        using progress_parent [OF Suc.prems(1)] r pend m step by fastforce
    next
      assume "y = child_id"
      then show ?thesis
        using progress_child [OF Suc.prems(1)] r pend m step by fastforce
    qed
  qed
  from Suc.IH [OF inv1 this] show ?case by (simp add: funpow_swap1)
qed

lemma work_off_closes:
  assumes y: "y = parent_id \<or> y = child_id" and inv: "pair_inv s"
    and pend: "close_pending y s"
  shows "crashed (work_off y s) \<noteq> None \<or> on_close_runs (store (work_off y s) y) = 1"
proof -
  let ?k = "Suc (length (work_queue (store s y)))"
  have w: "work_off y s = (pair_step (Deliver y) ^^ ?k) s"
    by (simp add: work_off_def pair_run_def del: replicate.simps funpow.simps)
  have "length (work_queue (store s y)) + (if stopped (store s y) then 0 else 1) \<le> ?k"
    by simp
  with pend have "crashed s \<noteq> None \<or> 0 < on_close_runs (store s y)
         \<or> (close_pending y s
            \<and> length (work_queue (store s y)) + (if stopped (store s y) then 0 else 1) \<le> ?k)"
    by blast
  from deliveries_reach_close [OF y inv this]
  have a: "crashed (work_off y s) \<noteq> None \<or> 0 < on_close_runs (store (work_off y s) y)"
    unfolding w .
  have "pair_inv (work_off y s)" unfolding work_off_def using inv by (rule inv_run)
  from inv_ptrs(3,4) [OF this] y
  have "on_close_runs (store (work_off y s) y) \<le> 1" by blast
  with a show ?thesis by auto
qed

lemma no_close_event_without_pointer:
  "child_handler w = None \<Longrightarrow> \<not> list_ex signals_close (steps_of (sw_on_close w e))"
  "parent_handler v = None \<Longrightarrow> \<not> list_ex signals_close (steps_of (cw_on_close v e))"
  by (simp_all add: steps_of_def sw_on_close_def cw_on_close_def report_def)

lemma close_event_received:
  "ev_state ev = child_close \<Longrightarrow>
     sw_on_child w ev = Inr (w\<lparr>child_handler := None\<rparr>, [Assign_peer None, Close])"
  "ev_state ev = parent_close \<Longrightarrow>
     cw_on_parent v ev = Inr (v\<lparr>parent_handler := None\<rparr>, [Assign_peer None, Close])"
  by (simp_all add: sw_on_child_def cw_on_parent_def)

text \<open>What every wired pair keeps to, a crash included. In every state \<open>s\<close> a wired pair can
  reach, \<^verbatim>\<open>on_close\<close> has run at most once on each side. When it has run on one side and
  not on the other, the other side has its own \<^verbatim>\<open>on_close\<close> or the peer's close-event in its
  work queue, and once its work loop has worked that queue off its \<^verbatim>\<open>on_close\<close> has run
  exactly once, unless a callback on the way has dereferenced a null pointer. When both work queues are empty, \<^verbatim>\<open>on_close\<close> has run on both
  sides or on neither. An \<^verbatim>\<open>on_close\<close> that finds its pointer null posts no close-event, and
  the callback that receives the peer's close-event nulls the pointer and then calls
  \<^verbatim>\<open>close()\<close>.\<close>

theorem paired_shutdown:
  assumes "s = pair_run evs (wired pb cb)"
  shows "on_close_runs (store s parent_id) \<le> 1 \<and> on_close_runs (store s child_id) \<le> 1
    \<and> (on_close_runs (store s parent_id) = 1 \<and> on_close_runs (store s child_id) = 0 \<longrightarrow>
         close_pending child_id s
         \<and> (crashed (work_off child_id s) \<noteq> None
            \<or> on_close_runs (store (work_off child_id s) child_id) = 1))
    \<and> (on_close_runs (store s child_id) = 1 \<and> on_close_runs (store s parent_id) = 0 \<longrightarrow>
         close_pending parent_id s
         \<and> (crashed (work_off parent_id s) \<noteq> None
            \<or> on_close_runs (store (work_off parent_id s) parent_id) = 1))
    \<and> (quiescent s \<longrightarrow> on_close_runs (store s parent_id) = on_close_runs (store s child_id))
    \<and> (child_handler w = None \<longrightarrow> \<not> list_ex signals_close (steps_of (sw_on_close w e)))
    \<and> (parent_handler v = None \<longrightarrow> \<not> list_ex signals_close (steps_of (cw_on_close v e)))
    \<and> (ev_state ev = child_close \<longrightarrow>
         sw_on_child w ev = Inr (w\<lparr>child_handler := None\<rparr>, [Assign_peer None, Close]))
    \<and> (ev_state ev = parent_close \<longrightarrow>
         cw_on_parent v ev = Inr (v\<lparr>parent_handler := None\<rparr>, [Assign_peer None, Close]))"
proof -
  have inv: "pair_inv s" unfolding assms using inv_wired by (rule inv_run)
  note once = inv_ptrs(3,4) [OF inv]
  have pc: "on_close_runs (store s parent_id) = 1 \<and> on_close_runs (store s child_id) = 0 \<longrightarrow>
              close_pending child_id s"
    using inv by (simp add: pair_inv_def)
  have cp: "on_close_runs (store s child_id) = 1 \<and> on_close_runs (store s parent_id) = 0 \<longrightarrow>
              close_pending parent_id s"
    using inv by (simp add: pair_inv_def)
  have q: "quiescent s \<longrightarrow> on_close_runs (store s parent_id) = on_close_runs (store s child_id)"
  proof
    assume "quiescent s"
    then have "\<not> close_pending parent_id s" "\<not> close_pending child_id s"
      by (simp_all add: quiescent_def close_pending_def)
    with pc cp once show "on_close_runs (store s parent_id) = on_close_runs (store s child_id)"
      by (cases "on_close_runs (store s parent_id) = 0";
          cases "on_close_runs (store s child_id) = 0") auto
  qed
  have sys: "on_close_runs (store s parent_id) \<le> 1 \<and> on_close_runs (store s child_id) \<le> 1
    \<and> (on_close_runs (store s parent_id) = 1 \<and> on_close_runs (store s child_id) = 0 \<longrightarrow>
         close_pending child_id s
         \<and> (crashed (work_off child_id s) \<noteq> None
            \<or> on_close_runs (store (work_off child_id s) child_id) = 1))
    \<and> (on_close_runs (store s child_id) = 1 \<and> on_close_runs (store s parent_id) = 0 \<longrightarrow>
         close_pending parent_id s
         \<and> (crashed (work_off parent_id s) \<noteq> None
            \<or> on_close_runs (store (work_off parent_id s) parent_id) = 1))
    \<and> (quiescent s \<longrightarrow> on_close_runs (store s parent_id) = on_close_runs (store s child_id))"
    using once pc cp q work_off_closes [OF _ inv, of child_id]
      work_off_closes [OF _ inv, of parent_id]
    by blast
  show ?thesis
    using sys no_close_event_without_pointer(1) [of w e]
      no_close_event_without_pointer(2) [of v e]
      close_event_received(1) [of ev w] close_event_received(2) [of ev v]
    by blast
qed

lemma parent_closes_first_eval:
  "store (pair_run parent_closes_first example_pair) parent_id =
     \<lparr>work_queue = [], stopped = True, on_close_runs = 1, reads_armed = 0, writes_armed = [],
      read_buffer = [0, 0, 0, 0], sent = []\<rparr>"
  "store (pair_run parent_closes_first example_pair) child_id =
     \<lparr>work_queue = [Cb_parent (event1 parent_close)], stopped = False, on_close_runs = 0,
      reads_armed = 0, writes_armed = [], read_buffer = [0, 0, 0, 0], sent = []\<rparr>"
  by (simp_all add: parent_closes_first_def pair_eval)

lemma parent_closes_first_end:
  "on_close_runs (store (work_off child_id (pair_run parent_closes_first example_pair)) child_id) = 1"
  "on_close_runs (store (work_off child_id (pair_run parent_closes_first example_pair)) parent_id) = 1"
  "crashed (work_off child_id (pair_run parent_closes_first example_pair)) = None"
  "quiescent (work_off child_id (pair_run parent_closes_first example_pair))"
  by (simp_all add: work_off_def parent_closes_first_eval numeral_2_eq_2 quiescent_def
        parent_closes_first_def pair_eval)

lemma child_closes_first_eval:
  "store (pair_run child_closes_first example_pair) child_id =
     \<lparr>work_queue = [], stopped = True, on_close_runs = 1, reads_armed = 0, writes_armed = [],
      read_buffer = [0, 0, 0, 0], sent = []\<rparr>"
  "store (pair_run child_closes_first example_pair) parent_id =
     \<lparr>work_queue = [Cb_child (event1 child_close)], stopped = False, on_close_runs = 0,
      reads_armed = 1, writes_armed = [], read_buffer = [0, 0, 0, 0], sent = []\<rparr>"
  by (simp_all add: child_closes_first_def pair_eval)

lemma child_closes_first_end:
  "on_close_runs (store (work_off parent_id (pair_run child_closes_first example_pair)) parent_id) = 1"
  "crashed (work_off parent_id (pair_run child_closes_first example_pair)) = None"
  by (simp_all add: work_off_def child_closes_first_eval numeral_2_eq_2
        child_closes_first_def pair_eval)

lemma work_off_run:
  "work_off x (pair_run evs s)
     = pair_run (evs @ replicate (Suc (length (work_queue (store (pair_run evs s) x)))) (Deliver x)) s"
  by (simp add: work_off_def pair_run_def del: replicate.simps)

theorem paired_shutdown_witness:
  "on_close_runs (store (pair_run parent_closes_first example_pair) parent_id) = 1
   \<and> on_close_runs (store (pair_run parent_closes_first example_pair) child_id) = 0
   \<and> close_pending child_id (pair_run parent_closes_first example_pair)
   \<and> crashed (work_off child_id (pair_run parent_closes_first example_pair)) = None
   \<and> on_close_runs (store (work_off child_id (pair_run parent_closes_first example_pair)) child_id) = 1
   \<and> on_close_runs (store (pair_run child_closes_first example_pair) child_id) = 1
   \<and> on_close_runs (store (pair_run child_closes_first example_pair) parent_id) = 0
   \<and> close_pending parent_id (pair_run child_closes_first example_pair)
   \<and> crashed (work_off parent_id (pair_run child_closes_first example_pair)) = None
   \<and> on_close_runs (store (work_off parent_id (pair_run child_closes_first example_pair)) parent_id) = 1
   \<and> quiescent (work_off child_id (pair_run parent_closes_first example_pair))
   \<and> on_close_runs (store (work_off child_id (pair_run parent_closes_first example_pair)) parent_id)
       = on_close_runs (store (work_off child_id (pair_run parent_closes_first example_pair)) child_id)
   \<and> \<not> list_ex signals_close (steps_of (sw_on_close server_work_new 0))
   \<and> \<not> list_ex signals_close (steps_of (cw_on_close client_work_new 0))
   \<and> sw_on_child server_work_new (event1 child_close)
       = Inr (server_work_new, [Assign_peer None, Close])
   \<and> cw_on_parent client_work_new (event1 parent_close)
       = Inr (client_work_new, [Assign_peer None, Close])"
  using paired_shutdown
          [of "pair_run parent_closes_first example_pair" parent_closes_first
              "[0, 0, 0, 0]" "[0, 0, 0, 0]" server_work_new 0 client_work_new
              "event1 child_close"]
    paired_shutdown
          [of "pair_run child_closes_first example_pair" child_closes_first
              "[0, 0, 0, 0]" "[0, 0, 0, 0]" server_work_new 0 client_work_new
              "event1 parent_close"]
    paired_shutdown
          [OF work_off_run [of child_id parent_closes_first "wired [0, 0, 0, 0] [0, 0, 0, 0]"]]
  by (simp add: example_pair_def [symmetric] parent_closes_first_eval child_closes_first_eval
        parent_closes_first_end child_closes_first_end server_work_new_def client_work_new_def
        event1_def)

subsection \<open>Handing the buffer over\<close>

lemma answer_read_eval:
  "store (pair_run answer_read example_pair) parent_id =
     \<lparr>work_queue = [Cb_child (event2 child_write 2)], stopped = False, on_close_runs = 0,
      reads_armed = 0, writes_armed = [], read_buffer = [1, 2, 3, 0], sent = []\<rparr>"
  "store (pair_run answer_read example_pair) child_id =
     \<lparr>work_queue = [], stopped = False, on_close_runs = 0,
      reads_armed = 0, writes_armed = [], read_buffer = [9, 8, 0, 0], sent = [1, 2, 3]\<rparr>"
  "crashed (pair_run answer_read example_pair) = None"
  "parent_work (pair_run answer_read example_pair) = \<lparr>child_handler = Some child_id\<rparr>"
  by (simp_all add: answer_read_def request_read_def pair_eval)

text \<open>C8. When the child's work loop delivers \<^verbatim>\<open>parent_write\<close> with count \<open>n\<close> to a child whose
  parent pointer is set, \<^verbatim>\<open>on_parent\<close> starts one write of \<open>n\<close> bytes from the parent's read
  buffer, and when that write completes exactly the first \<open>n\<close> bytes of the parent's read
  buffer have been appended to what the child's socket has sent; the same with the roles
  exchanged for \<^verbatim>\<open>child_write\<close>. The count does not exceed the buffer, the handler is open
  and has no other write outstanding.\<close>

theorem peer_buffer_written:
  "(crashed s = None \<and> on_close_runs (store s child_id) = 0 \<and> \<not> stopped (store s child_id)
      \<and> work_queue (store s child_id) = Cb_parent (event2 parent_write n) # q
      \<and> writes_armed (store s child_id) = []
      \<and> parent_handler (child_work s) = Some parent_id
      \<and> n \<le> length (read_buffer (store s parent_id))
    \<longrightarrow> steps_of (cw_on_parent (child_work s) (event2 parent_write n)) = [Async_write parent_id n]
        \<and> sent (store (pair_run [Deliver child_id, Write_completes child_id] s) child_id)
            = sent (store s child_id) @ take n (read_buffer (store s parent_id)))
   \<and> (crashed t = None \<and> on_close_runs (store t parent_id) = 0 \<and> \<not> stopped (store t parent_id)
      \<and> work_queue (store t parent_id) = Cb_child (event2 child_write m) # r
      \<and> writes_armed (store t parent_id) = []
      \<and> child_handler (parent_work t) = Some child_id
      \<and> m \<le> length (read_buffer (store t child_id))
    \<longrightarrow> steps_of (sw_on_child (parent_work t) (event2 child_write m)) = [Async_write child_id m]
        \<and> sent (store (pair_run [Deliver parent_id, Write_completes parent_id] t) parent_id)
            = sent (store t parent_id) @ take m (read_buffer (store t child_id)))"
  by (simp add: pair_run_def pair_step_def deliver_def Let_def sw_defs cw_defs ev_defs frame_defs
        write_completes_def steps_of_def)

theorem peer_buffer_written_witness:
  "work_queue (store (pair_run (request_read @ [Deliver parent_id]) example_pair) child_id)
     = [Cb_parent (event2 parent_write 3)]
   \<and> read_buffer (store (pair_run (request_read @ [Deliver parent_id]) example_pair) parent_id)
     = [1, 2, 3, 0]
   \<and> sent (store (pair_run [Deliver child_id, Write_completes child_id]
                 (pair_run (request_read @ [Deliver parent_id]) example_pair)) child_id)
     = [1, 2, 3]
   \<and> work_queue (store (pair_run answer_read example_pair) parent_id)
     = [Cb_child (event2 child_write 2)]
   \<and> read_buffer (store (pair_run answer_read example_pair) child_id) = [9, 8, 0, 0]
   \<and> sent (store (pair_run [Deliver parent_id, Write_completes parent_id]
                 (pair_run answer_read example_pair)) parent_id)
     = [9, 8]"
  using peer_buffer_written
          [of "pair_run (request_read @ [Deliver parent_id]) example_pair" 3 "[]"
              "pair_run answer_read example_pair" 2 "[]"]
  by (simp add: request_read_eval answer_read_eval)

subsection \<open>A close that overtakes a read\<close>

lemma pair_run_append: "pair_run (evs @ evs') s = pair_run evs' (pair_run evs s)"
  by (simp add: pair_run_def)

lemma crashed_stays: "crashed s \<noteq> None \<Longrightarrow> pair_run evs s = s"
  by (induction evs) (simp_all add: pair_run_def pair_step_def)

lemma child_timer_expires_eval:
  "store (pair_run [Deliver child_id, Deliver parent_id, Timer_expires child_id,
                    Deliver child_id] example_pair) parent_id =
     \<lparr>work_queue = [Cb_child (event1 child_close)], stopped = False, on_close_runs = 0,
      reads_armed = 1, writes_armed = [], read_buffer = [0, 0, 0, 0], sent = []\<rparr>"
  "on_close_runs (store (pair_run [Deliver child_id, Deliver parent_id, Timer_expires child_id,
                    Deliver child_id] example_pair) child_id) = 1"
  "crashed (pair_run [Deliver child_id, Deliver parent_id, Timer_expires child_id,
                    Deliver child_id] example_pair) = None"
  "parent_work (pair_run [Deliver child_id, Deliver parent_id, Timer_expires child_id,
                    Deliver child_id] example_pair) = \<lparr>child_handler = Some child_id\<rparr>"
  by (simp_all add: pair_eval)

lemma read_behind_child_close:
  assumes "store s parent_id =
     \<lparr>work_queue = [Cb_child (event1 child_close)], stopped = False, on_close_runs = 0,
      reads_armed = 1, writes_armed = [], read_buffer = [0, 0, 0, 0], sent = []\<rparr>"
    and "on_close_runs (store s child_id) = 1"
    and "crashed s = None"
    and "parent_work s = \<lparr>child_handler = Some child_id\<rparr>"
  shows "on_close_runs (store (pair_run [Read_completes parent_id [1, 2, 3], Deliver parent_id,
                                         Deliver parent_id] s) parent_id) = 0"
    and "work_queue (store (pair_run [Read_completes parent_id [1, 2, 3], Deliver parent_id,
                                      Deliver parent_id] s) parent_id) = [Cb_close 0]"
    and "on_close_runs (store (pair_run [Read_completes parent_id [1, 2, 3], Deliver parent_id,
                                         Deliver parent_id] s) child_id) = 1"
    and "crashed (pair_run [Read_completes parent_id [1, 2, 3], Deliver parent_id,
                            Deliver parent_id] s) = Some (Null_dereference parent_id (Cb_read 3))"
  using assms by (simp_all add: pair_eval)

text \<open>C2. The code does not keep the property. The child's session timer expires while a
  read is armed on the parent: the child's \<^verbatim>\<open>on_close\<close> runs, once, and posts \<^verbatim>\<open>child_close\<close>;
  the parent's read completes, so that \<^verbatim>\<open>on_read\<close> is queued behind \<^verbatim>\<open>child_close\<close>; the
  parent handles \<^verbatim>\<open>child_close\<close>, which nulls \<^verbatim>\<open>child_handler_\<close> and calls \<^verbatim>\<open>close()\<close>, so that
  the parent's \<^verbatim>\<open>on_close\<close> is queued behind \<^verbatim>\<open>on_read\<close>; \<^verbatim>\<open>on_read\<close> then dereferences the null
  pointer. Whatever happens afterwards, the child's \<^verbatim>\<open>on_close\<close> has run once and the
  parent's has not run: it is still in the parent's work queue.\<close>

theorem on_close_lost_behind_on_read:
  "\<forall>evs.
     on_close_runs (store (pair_run (close_overtakes_read @ evs) example_pair) child_id) = 1
     \<and> on_close_runs (store (pair_run (close_overtakes_read @ evs) example_pair) parent_id) = 0
     \<and> work_queue (store (pair_run (close_overtakes_read @ evs) example_pair) parent_id)
         = [Cb_close 0]
     \<and> crashed (pair_run (close_overtakes_read @ evs) example_pair)
         = Some (Null_dereference parent_id (Cb_read 3))"
proof (intro allI)
  fix evs
  let ?pre = "[Deliver child_id, Deliver parent_id, Timer_expires child_id, Deliver child_id]"
  let ?post = "[Read_completes parent_id [1, 2, 3], Deliver parent_id, Deliver parent_id]"
  let ?s = "pair_run ?post (pair_run ?pre example_pair)"
  note fin = read_behind_child_close [OF child_timer_expires_eval]
  have "close_overtakes_read @ evs = ?pre @ (?post @ evs)"
    by (simp add: close_overtakes_read_def)
  then have "pair_run (close_overtakes_read @ evs) example_pair = pair_run evs ?s"
    by (simp only: pair_run_append)
  also have "\<dots> = ?s"
    using fin(4) by (intro crashed_stays) simp
  finally have eq: "pair_run (close_overtakes_read @ evs) example_pair = ?s" .
  show
    "on_close_runs (store (pair_run (close_overtakes_read @ evs) example_pair) child_id) = 1
     \<and> on_close_runs (store (pair_run (close_overtakes_read @ evs) example_pair) parent_id) = 0
     \<and> work_queue (store (pair_run (close_overtakes_read @ evs) example_pair) parent_id)
         = [Cb_close 0]
     \<and> crashed (pair_run (close_overtakes_read @ evs) example_pair)
         = Some (Null_dereference parent_id (Cb_read 3))"
    unfolding eq using fin by (intro conjI)
qed

text \<open>C10. The child's session timer expires while the parent waits for its first read; the
  child's \<^verbatim>\<open>on_close\<close> posts \<^verbatim>\<open>child_close\<close>; the parent's read completes before the parent's
  work loop gets to that event. The parent then handles \<^verbatim>\<open>child_close\<close>, which nulls
  \<^verbatim>\<open>child_handler_\<close>, and runs the \<^verbatim>\<open>on_read\<close> queued behind it on the null pointer.\<close>

theorem on_read_after_child_close:
  "child_handler (parent_work (pair_run close_overtakes_read example_pair)) = None
   \<and> crashed (pair_run close_overtakes_read example_pair)
       = Some (Null_dereference parent_id (Cb_read 3))"
  by (simp add: close_overtakes_read_def pair_eval)

end
